theory Spec2Isabelle
  imports Main
begin

section \<open>Constants of report\_system.h\<close>

definition DEPT_WAREHOUSE :: string where "DEPT_WAREHOUSE = ''Warehouse''"
definition DEPT_MANUFACTURING :: string where "DEPT_MANUFACTURING = ''Manufacturing''"
definition DEPT_SALES :: string where "DEPT_SALES = ''Sales''"
definition DEPT_DISTRIBUTION :: string where "DEPT_DISTRIBUTION = ''Distribution''"

definition REPORT_EXTENSION :: string where "REPORT_EXTENSION = ''.xml''"
definition REPORT_PREFIX :: string where "REPORT_PREFIX = ''report_''"

definition UPLOAD_DIR :: string where "UPLOAD_DIR = ''/var/report_system/upload''"
definition DASHBOARD_DIR :: string where "DASHBOARD_DIR = ''/var/report_system/dashboard''"
definition BACKUP_DIR :: string where "BACKUP_DIR = ''/var/report_system/backup''"

definition TRANSFER_HOUR :: int where "TRANSFER_HOUR = 1"
definition TRANSFER_MINUTE :: int where "TRANSFER_MINUTE = 0"

text \<open>Permission modes are the octal literals 0777, 0755 and 0000 of the header.\<close>

definition UPLOAD_PERMISSIONS :: nat where "UPLOAD_PERMISSIONS = 7 * 64 + 7 * 8 + 7"
definition DASHBOARD_PERMISSIONS :: nat where "DASHBOARD_PERMISSIONS = 7 * 64 + 5 * 8 + 5"
definition LOCKED_PERMISSIONS :: nat where "LOCKED_PERMISSIONS = 0"

definition SUCCESS :: int where "SUCCESS = 0"
definition FAILURE :: int where "FAILURE = - 1"

definition MAX_PATH_LENGTH :: nat where "MAX_PATH_LENGTH = 1024"
definition MAX_USER_LENGTH :: nat where "MAX_USER_LENGTH = 256"

section \<open>The C string functions the sources use\<close>

text \<open>
  A C string is modelled by the list of its characters before the terminating NUL.
  \<open>strchr\<close> and \<open>strstr\<close> return a pointer into their first argument or NULL: the
  model returns the offset of that pointer from the start of the string, or \<open>None\<close>.
\<close>

fun strchr :: "string \<Rightarrow> char \<Rightarrow> nat option" where
  "strchr [] c = None"
| "strchr (x # xs) c = (if x = c then Some 0 else map_option Suc (strchr xs c))"

fun starts_with :: "string \<Rightarrow> string \<Rightarrow> bool" where
  "starts_with s [] = True"
| "starts_with [] (n # ns) = False"
| "starts_with (x # xs) (n # ns) = (x = n \<and> starts_with xs ns)"

fun strstr :: "string \<Rightarrow> string \<Rightarrow> nat option" where
  "strstr [] needle = (if needle = [] then Some 0 else None)"
| "strstr (x # xs) needle =
     (if starts_with (x # xs) needle then Some 0 else map_option Suc (strstr xs needle))"

text \<open>\<open>strncmp(s, t, n) == 0\<close>: the first \<open>n\<close> characters agree (a shorter string ends
  the comparison at its NUL, which then has to be matched by a NUL).\<close>

definition strncmp_eq :: "string \<Rightarrow> string \<Rightarrow> nat \<Rightarrow> bool" where
  "strncmp_eq s t n = (take n s = take n t)"

section \<open>extract\_department\_from\_filename (file\_operations.c)\<close>

text \<open>
  The function writes the label into the caller's buffer \<open>department\<close> of \<open>dept_size\<close>
  bytes and returns that buffer, or returns NULL and leaves the buffer as it was.
  \<open>Department d\<close> is the returned buffer holding \<open>d\<close>. With \<open>dept_size = 0\<close> the
  C computes \<open>dept_size - 1\<close> on \<open>size_t\<close>, which wraps to the largest value, and
  then writes beyond a buffer of no bytes: \<open>Overrun\<close>.
\<close>

datatype extract_result = Null | Department string | Overrun

definition extract_department_from_filename :: "string \<Rightarrow> nat \<Rightarrow> extract_result" where
  "extract_department_from_filename filename dept_size =
     (let prefix = REPORT_PREFIX in
      if \<not> strncmp_eq filename prefix (length prefix) then Null
      else
        let start = drop (length prefix) filename;
            end1 = (case strchr start (CHR ''_'') of
                      Some e \<Rightarrow> Some e
                    | None \<Rightarrow> strstr start REPORT_EXTENSION)
        in case end1 of
             None \<Rightarrow> Null
           | Some e \<Rightarrow>
               if e \<ge> dept_size then
                 (if dept_size = 0 then Overrun
                  else Department (take (dept_size - 1) start))
               else Department (take e start))"

section \<open>The operating system as the functions see it\<close>

text \<open>
  The daemon talks to the file system, the clock and the C library. Their answers are the
  fields of an \<open>env\<close>: one value of \<open>env\<close> holds the answers during one call of a
  function of the daemon, and a system call with the same arguments gets the same answer
  while that call lasts. What the daemon changes is the \<open>world\<close> defined below.
\<close>

record tm =
  tm_hour :: int
  tm_min :: int

record stat_t =
  st_mtime :: int
  st_size :: int
  st_uid :: nat

text \<open>A directory entry as \<open>readdir\<close> returns it; \<open>d_is_dir\<close> is \<open>d_type == DT_DIR\<close>.\<close>

record dirent =
  d_name :: string
  d_is_dir :: bool

text \<open>The struct \<open>IPCMessage\<close> of the header.\<close>

record IPCMessage =
  msg_type :: int
  sender_pid :: int
  status :: int
  message :: string

datatype signal = SIGTERM | SIGINT | SIGUSR1 | SIGUSR2 | SIGHUP

record env =
  e_time :: int
    \<comment> \<open>\<open>time(NULL)\<close>\<close>
  e_localtime :: "int \<Rightarrow> tm"
  e_strftime :: "string \<Rightarrow> int \<Rightarrow> string"
    \<comment> \<open>\<open>strftime\<close> of a format on the local time of a timestamp\<close>
  e_format_d :: "nat \<Rightarrow> string"
    \<comment> \<open>\<open>snprintf\<close> of a user id with \<open>%d\<close>\<close>
  e_opendir :: "string \<Rightarrow> dirent list option"
    \<comment> \<open>the entries \<open>readdir\<close> returns, in its order; \<open>None\<close> when \<open>opendir\<close> fails\<close>
  e_stat :: "string \<Rightarrow> stat_t option"
  e_getpwuid :: "nat \<Rightarrow> string option"
  e_rename :: "string \<Rightarrow> string \<Rightarrow> bool"
  e_unlink :: "string \<Rightarrow> bool"
  e_chmod :: "string \<Rightarrow> nat \<Rightarrow> bool"
  e_mkdir :: "string \<Rightarrow> bool"
  e_fopen_append :: "string \<Rightarrow> bool"
  e_malloc :: "nat \<Rightarrow> bool"
    \<comment> \<open>allocation of an array of that many \<open>ReportFile\<close> succeeds\<close>
  e_realloc :: "nat \<Rightarrow> bool"
  e_open_read :: "string \<Rightarrow> int list option"
    \<comment> \<open>the values of the successive \<open>read\<close> calls on the file, followed by end of
       file (0); \<open>None\<close> when \<open>open\<close> fails\<close>
  e_open_write :: "string \<Rightarrow> bool"
  e_write :: "string \<Rightarrow> nat \<Rightarrow> int \<Rightarrow> int"
    \<comment> \<open>the value of the \<open>k\<close>-th \<open>write\<close> of \<open>n\<close> bytes to the file\<close>
  e_fifo_read :: "int \<times> int \<times> IPCMessage"
    \<comment> \<open>\<open>read\<close> on the FIFO: its value, \<open>errno\<close> after it, and the record read\<close>
  e_signals :: "signal list"
    \<comment> \<open>the signals delivered while the loop sleeps\<close>

text \<open>Values of \<open>errno.h\<close> on Linux and the size of the struct \<open>IPCMessage\<close>
  (three 4-byte integers and \<open>MAX_LINE_LENGTH = 2048\<close> characters).\<close>

definition EAGAIN :: int where "EAGAIN = 11"
definition EWOULDBLOCK :: int where "EWOULDBLOCK = 11"
definition sizeof_IPCMessage :: int where "sizeof_IPCMessage = 4 + 4 + 4 + 2048"

text \<open>The struct \<open>ReportFile\<close>. The array of them is allocated with \<open>malloc\<close>, so a
  character buffer that no statement has written holds nothing determined: \<open>None\<close>.\<close>

record ReportFile =
  path :: string
  filename :: string
  department :: "string option"
  timestamp :: int
  owner :: "string option"
  fsize :: int

text \<open>An argument of a \<open>printf\<close> format; \<open>Strerror\<close> is \<open>strerror(errno)\<close>.\<close>

datatype arg = S string | I int | Strerror

type_synonym log_line = "string \<times> arg list"

text \<open>A call of \<open>log_file_change\<close>: the time it read, and its three arguments.\<close>

record change_line =
  cl_time :: int
  cl_user :: "string option"
  cl_file :: string
  cl_action :: string

text \<open>A change the daemon has made to the files: a \<open>rename\<close>, an \<open>open\<close> that
  created or emptied a file, a copy loop that reached the end of its source, an
  \<open>unlink\<close>, a \<open>mkdir\<close>; each one recorded when the call succeeded.\<close>

datatype fs_op =
    Renamed string string
  | Created string
  | Copied string string
  | Unlinked string
  | Made_dir string

text \<open>
  The state the daemon changes: its global variables (\<open>daemon.c\<close>, \<open>file_operations.c\<close>,
  \<open>ipc.c\<close>), the permission bits of every path (\<open>chmod\<close> changes them), the changes
  it has made to files, and what it has logged. \<open>previous_files\<close> is the pair of
  \<open>previous_files\<close> and \<open>previous_file_count\<close>: \<open>None\<close> is the NULL pointer, and
  \<open>Some fs\<close> an array whose first \<open>previous_file_count = length fs\<close> elements are \<open>fs\<close>.
  \<open>operation_log\<close> and \<open>error_log\<close> are the messages given to \<open>log_operation\<close> and
  \<open>log_error\<close>, which pass each of them to syslog and, when it opens, to their file.
  \<open>change_events\<close> are the calls of \<open>log_file_change\<close> and \<open>change_log\<close> the lines it
  wrote to the change log.
\<close>

record world =
  daemon_exit :: int
  force_backup :: int
  force_transfer :: int
  last_scan_time :: int
  previous_files :: "ReportFile list option"
  fifo_fd :: int
  mode_of :: "string \<Rightarrow> nat"
  fs_trace :: "fs_op list"
  operation_log :: "log_line list"
  error_log :: "log_line list"
  change_events :: "change_line list"
  change_log :: "change_line list"

definition previous_file_count :: "world \<Rightarrow> int" where
  "previous_file_count w = (case previous_files w of None \<Rightarrow> 0 | Some fs \<Rightarrow> int (length fs))"

section \<open>Logging (utils.c, file\_operations.c)\<close>

definition log_error :: "world \<Rightarrow> string \<Rightarrow> arg list \<Rightarrow> world" where
  "log_error w format args = w\<lparr>error_log := error_log w @ [(format, args)]\<rparr>"

definition log_operation :: "world \<Rightarrow> string \<Rightarrow> arg list \<Rightarrow> world" where
  "log_operation w format args = w\<lparr>operation_log := operation_log w @ [(format, args)]\<rparr>"

definition CHANGE_LOG :: string where "CHANGE_LOG = ''/var/report_system/logs/changes.log''"

definition log_file_change ::
  "env \<Rightarrow> world \<Rightarrow> string option \<Rightarrow> string \<Rightarrow> string \<Rightarrow> int \<times> world" where
  "log_file_change e w username fname action =
     (let now = e_time e;
          line = \<lparr>cl_time = now, cl_user = username, cl_file = fname, cl_action = action\<rparr>;
          w1 = w\<lparr>change_events := change_events w @ [line]\<rparr>
      in if \<not> e_fopen_append e CHANGE_LOG then
           (FAILURE, log_error w1 ''Failed to open change log file: %s'' [Strerror])
         else (SUCCESS, w1\<lparr>change_log := change_log w1 @ [line]\<rparr>))"

text \<open>\<open>snprintf(buf, n, "%s/%s", dir, name)\<close>: the text, cut to the \<open>n - 1\<close> characters
  the buffer holds.\<close>

definition snprintf_path :: "nat \<Rightarrow> string \<Rightarrow> string \<Rightarrow> string" where
  "snprintf_path n dir name = take (n - 1) (dir @ ''/'' @ name)"

section \<open>Directory permissions (backup.c)\<close>

definition set_directory_permissions :: "env \<Rightarrow> world \<Rightarrow> string \<Rightarrow> nat \<Rightarrow> int \<times> world" where
  "set_directory_permissions e w p mode =
     (if \<not> e_chmod e p mode then
        (FAILURE, log_error w ''Failed to set permissions on %s: %s'' [S p, Strerror])
      else (SUCCESS, w\<lparr>mode_of := (mode_of w)(p := mode)\<rparr>))"

definition lock_directories :: "env \<Rightarrow> world \<Rightarrow> int \<times> world" where
  "lock_directories e w =
     (let result = SUCCESS;
          w = log_operation w ''Locking directories for backup/transfer'' [];
          (r1, w) = set_directory_permissions e w UPLOAD_DIR LOCKED_PERMISSIONS;
          (result, w) = (if r1 \<noteq> SUCCESS
                         then (FAILURE, log_error w ''Failed to lock upload directory'' [])
                         else (result, w));
          (r2, w) = set_directory_permissions e w DASHBOARD_DIR LOCKED_PERMISSIONS;
          (result, w) = (if r2 \<noteq> SUCCESS
                         then (FAILURE, log_error w ''Failed to lock dashboard directory'' [])
                         else (result, w))
      in (result, w))"

definition unlock_directories :: "env \<Rightarrow> world \<Rightarrow> int \<times> world" where
  "unlock_directories e w =
     (let result = SUCCESS;
          w = log_operation w ''Unlocking directories after backup/transfer'' [];
          (r1, w) = set_directory_permissions e w UPLOAD_DIR UPLOAD_PERMISSIONS;
          (result, w) = (if r1 \<noteq> SUCCESS
                         then (FAILURE, log_error w ''Failed to unlock upload directory'' [])
                         else (result, w));
          (r2, w) = set_directory_permissions e w DASHBOARD_DIR DASHBOARD_PERMISSIONS;
          (result, w) = (if r2 \<noteq> SUCCESS
                         then (FAILURE, log_error w ''Failed to unlock dashboard directory'' [])
                         else (result, w))
      in (result, w))"

section \<open>Copying and moving a file (file\_operations.c)\<close>

text \<open>The copy loop of \<open>copy_file\<close>: \<open>wr k n\<close> is the value of the \<open>k\<close>-th \<open>write\<close>
  of \<open>n\<close> bytes, the list holds the values of the \<open>read\<close> calls still to come. It
  returns \<open>result\<close> and the last \<open>bytes_read\<close>.\<close>

fun copy_loop :: "(nat \<Rightarrow> int \<Rightarrow> int) \<Rightarrow> nat \<Rightarrow> int list \<Rightarrow> int \<times> int" where
  "copy_loop wr k [] = (SUCCESS, 0)"
| "copy_loop wr k (bytes_read # reads) =
     (if bytes_read > 0 then
        (let bytes_written = wr k bytes_read in
         if bytes_written \<noteq> bytes_read then (FAILURE, bytes_read)
         else copy_loop wr (Suc k) reads)
      else (SUCCESS, bytes_read))"

definition copy_file :: "env \<Rightarrow> world \<Rightarrow> string \<Rightarrow> string \<Rightarrow> int \<times> world" where
  "copy_file e w source destination =
     (case e_open_read e source of
        None \<Rightarrow>
          (FAILURE, log_error w ''Failed to open source file %s: %s'' [S source, Strerror])
      | Some reads \<Rightarrow>
          if \<not> e_open_write e destination then
            (FAILURE,
             log_error w ''Failed to open destination file %s: %s'' [S destination, Strerror])
          else
            let w = w\<lparr>fs_trace := fs_trace w @ [Created destination]\<rparr>;
                (result, bytes_read) = copy_loop (e_write e destination) 0 reads;
                w = (if result \<noteq> SUCCESS
                     then log_error w ''Failed to write to destination file: %s'' [Strerror]
                     else w);
                (result, w) =
                  (if bytes_read = - 1
                   then (FAILURE,
                         log_error w ''Failed to read from source file: %s'' [Strerror])
                   else (result, w));
                w = (if result = SUCCESS
                     then w\<lparr>fs_trace := fs_trace w @ [Copied source destination]\<rparr>
                     else w)
            in (result, w))"

definition move_file :: "env \<Rightarrow> world \<Rightarrow> string \<Rightarrow> string \<Rightarrow> int \<times> world" where
  "move_file e w source destination =
     (if e_rename e source destination then
        (SUCCESS, w\<lparr>fs_trace := fs_trace w @ [Renamed source destination]\<rparr>)
      else
        let (rc, w) = copy_file e w source destination in
        if rc = SUCCESS then
          (if \<not> e_unlink e source then
             (FAILURE,
              log_error w ''Failed to delete source file after copy: %s'' [Strerror])
           else (SUCCESS, w\<lparr>fs_trace := fs_trace w @ [Unlinked source]\<rparr>))
        else (FAILURE, w))"

text \<open>\<open>get_file_owner\<close> returns its status and the buffer \<open>owner\<close>: \<open>None\<close> when it
  has not written it. Every call in the sources passes \<open>owner_size = MAX_USER_LENGTH\<close>;
  the model is of calls with \<open>owner_size > 0\<close>.\<close>

definition get_file_owner ::
  "env \<Rightarrow> world \<Rightarrow> string \<Rightarrow> nat \<Rightarrow> int \<times> string option \<times> world" where
  "get_file_owner e w p owner_size =
     (case e_stat e p of
        None \<Rightarrow>
          (FAILURE, None, log_error w ''Failed to get file stats for %s: %s'' [S p, Strerror])
      | Some file_stat \<Rightarrow>
          (case e_getpwuid e (st_uid file_stat) of
             None \<Rightarrow>
               (FAILURE, Some (take (owner_size - 1) (e_format_d e (st_uid file_stat))),
                log_error w ''Failed to get owner for %s: %s'' [S p, Strerror])
           | Some pw_name \<Rightarrow> (SUCCESS, Some (take (owner_size - 1) pw_name), w)))"

section \<open>transfer\_reports (file\_operations.c)\<close>

text \<open>The \<open>while\<close> loop over the entries \<open>readdir\<close> still has to return, with the
  variable \<open>result\<close>.\<close>

fun transfer_loop :: "env \<Rightarrow> dirent list \<Rightarrow> int \<Rightarrow> world \<Rightarrow> int \<times> world" where
  "transfer_loop e [] result w = (result, w)"
| "transfer_loop e (entry # rest) result w =
     (if d_is_dir entry \<or> strstr (d_name entry) REPORT_EXTENSION = None then
        transfer_loop e rest result w
      else
        let src_path = snprintf_path MAX_PATH_LENGTH UPLOAD_DIR (d_name entry);
            dest_path = snprintf_path MAX_PATH_LENGTH DASHBOARD_DIR (d_name entry);
            w = log_operation w ''Moving file: %s to %s'' [S (d_name entry), S DASHBOARD_DIR];
            (rc, w) = move_file e w src_path dest_path
        in if rc \<noteq> SUCCESS then
             transfer_loop e rest FAILURE
               (log_error w ''Failed to move file %s to dashboard'' [S (d_name entry)])
           else
             let (ro, owner_buf, w) = get_file_owner e w dest_path MAX_USER_LENGTH;
                 w = (if ro = SUCCESS
                      then snd (log_file_change e w owner_buf (d_name entry) ''transfer'')
                      else w)
             in transfer_loop e rest result w)"

definition transfer_reports :: "env \<Rightarrow> world \<Rightarrow> int \<times> world" where
  "transfer_reports e w =
     (let result = SUCCESS;
          w = log_operation w ''Starting report transfer from upload to dashboard'' []
      in case e_opendir e UPLOAD_DIR of
           None \<Rightarrow>
             (FAILURE, log_error w ''Failed to open upload directory: %s'' [Strerror])
         | Some entries \<Rightarrow> transfer_loop e entries result w)"

section \<open>check\_missing\_reports (file\_operations.c)\<close>

text \<open>\<open>strcasecmp(a, b) == 0\<close> in the C locale, which the daemon never changes.\<close>

definition tolower_c :: "char \<Rightarrow> char" where
  "tolower_c c =
     (let n = (of_char c :: nat) in if 65 \<le> n \<and> n \<le> 90 then char_of (n + 32) else c)"

definition strcasecmp_eq :: "string \<Rightarrow> string \<Rightarrow> bool" where
  "strcasecmp_eq a b = (map tolower_c a = map tolower_c b)"

definition department_reports :: "string list" where
  "department_reports = [DEPT_WAREHOUSE, DEPT_MANUFACTURING, DEPT_SALES, DEPT_DISTRIBUTION]"

text \<open>The \<open>for\<close> loop that marks a department as found and leaves at the first match,
  over the departments and the array \<open>found\<close> from index \<open>i\<close> on.\<close>

fun mark_found :: "string \<Rightarrow> string list \<Rightarrow> bool list \<Rightarrow> bool list" where
  "mark_found dept (r # rs) (f # fs) =
     (if strcasecmp_eq dept r then True # fs else f # mark_found dept rs fs)"
| "mark_found dept rs fs = fs"

fun check_loop :: "dirent list \<Rightarrow> bool list \<Rightarrow> bool list" where
  "check_loop [] found = found"
| "check_loop (entry # rest) found =
     (if d_is_dir entry \<or> strstr (d_name entry) REPORT_EXTENSION = None then
        check_loop rest found
      else
        (case extract_department_from_filename (d_name entry) MAX_USER_LENGTH of
           Department dept \<Rightarrow> check_loop rest (mark_found dept department_reports found)
         | _ \<Rightarrow> check_loop rest found))"

text \<open>The last \<open>for\<close> loop, which logs and counts the departments not found.\<close>

fun log_missing :: "string list \<Rightarrow> bool list \<Rightarrow> int \<Rightarrow> world \<Rightarrow> int \<times> world" where
  "log_missing (r # rs) (f # fs) missing_count w =
     (if \<not> f then
        log_missing rs fs (missing_count + 1)
          (log_error w ''Missing report from department: %s'' [S r])
      else log_missing rs fs missing_count w)"
| "log_missing rs fs missing_count w = (missing_count, w)"

definition check_missing_reports :: "env \<Rightarrow> world \<Rightarrow> int \<times> world" where
  "check_missing_reports e w =
     (let found = [False, False, False, False];
          w = log_operation w ''Checking for missing department reports'' []
      in case e_opendir e DASHBOARD_DIR of
           None \<Rightarrow>
             (4, log_error w ''Failed to open dashboard directory: %s'' [Strerror])
         | Some entries \<Rightarrow>
             let found = check_loop entries found;
                 (missing_count, w) = log_missing department_reports found 0 w
             in (missing_count,
                 log_operation w ''Missing report check completed, %d missing''
                   [I missing_count]))"

section \<open>scan\_directory and monitor\_directory\_changes (file\_operations.c)\<close>

text \<open>
  The loop of \<open>scan_directory\<close> over the entries \<open>readdir\<close> still has to return.
  \<open>files\<close> are the elements of \<open>*files\<close> filled so far, so \<open>file_count\<close> is their
  number. The result is the status, \<open>*files\<close> with \<open>*count\<close> (NULL and 0 as \<open>None\<close>) and
  the world. The counters \<open>file_count\<close> and \<open>array_size\<close> are C \<open>int\<close>s, here integers:
  they agree for the fewer than \<open>2^31\<close> entries an array of \<open>ReportFile\<close> can hold.
  The conversion of \<open>st_size\<close> to the \<open>int\<close> field keeps its low 32 bits.
\<close>

fun scan_loop ::
  "env \<Rightarrow> string \<Rightarrow> dirent list \<Rightarrow> ReportFile list \<Rightarrow> int \<Rightarrow> world
     \<Rightarrow> int \<times> ReportFile list option \<times> world" where
  "scan_loop e dir_path [] files array_size w = (SUCCESS, Some files, w)"
| "scan_loop e dir_path (entry # rest) files array_size w =
     (if d_is_dir entry \<or> (case d_name entry of [] \<Rightarrow> False | c # cs \<Rightarrow> c = CHR ''.'') then
        scan_loop e dir_path rest files array_size w
      else
        let full_path = snprintf_path MAX_PATH_LENGTH dir_path (d_name entry) in
        case e_stat e full_path of
          None \<Rightarrow>
            scan_loop e dir_path rest files array_size
              (log_error w ''Failed to get file stats for %s: %s'' [S (d_name entry), Strerror])
        | Some file_stat \<Rightarrow>
            let file_count = int (length files) in
            if file_count \<ge> array_size \<and> \<not> e_realloc e (nat (array_size * 2)) then
              (FAILURE, None, log_error w ''Memory reallocation failed for file list'' [])
            else
              let array_size = (if file_count \<ge> array_size then array_size * 2 else array_size);
                  (ro, owner_buf, w) = get_file_owner e w full_path MAX_USER_LENGTH;
                  department_buf =
                    (if strstr (d_name entry) REPORT_EXTENSION \<noteq> None then
                       (case extract_department_from_filename (d_name entry) MAX_USER_LENGTH of
                          Department dept \<Rightarrow> Some dept
                        | _ \<Rightarrow> None)
                     else Some []);
                  file = \<lparr>path = take (MAX_PATH_LENGTH - 1) full_path,
                          filename = take (MAX_PATH_LENGTH - 1) (d_name entry),
                          department = department_buf,
                          timestamp = st_mtime file_stat,
                          owner = owner_buf,
                          fsize = signed_take_bit 31 (st_size file_stat)\<rparr>
              in scan_loop e dir_path rest (files @ [file]) array_size w)"

definition scan_directory ::
  "env \<Rightarrow> world \<Rightarrow> string \<Rightarrow> int \<times> ReportFile list option \<times> world" where
  "scan_directory e w dir_path =
     (let array_size = 10 in
      case e_opendir e dir_path of
        None \<Rightarrow>
          (FAILURE, None,
           log_error w ''Failed to open directory %s: %s'' [S dir_path, Strerror])
      | Some entries \<Rightarrow>
          if \<not> e_malloc e (nat array_size) then
            (FAILURE, None, log_error w ''Memory allocation failed for file list'' [])
          else scan_loop e dir_path entries [] array_size w)"

text \<open>The inner loop over \<open>previous_files\<close> from index \<open>j\<close> on, for the current file
  \<open>c\<close>: it returns \<open>found\<close>.\<close>

fun inner_previous :: "env \<Rightarrow> ReportFile \<Rightarrow> ReportFile list \<Rightarrow> world \<Rightarrow> bool \<times> world" where
  "inner_previous e c [] w = (False, w)"
| "inner_previous e c (p # ps) w =
     (if filename c = filename p then
        (True,
         if timestamp c > timestamp p
         then snd (log_file_change e w (owner c) (filename c) ''modify'')
         else w)
      else inner_previous e c ps w)"

text \<open>The first outer loop, over \<open>current_files\<close> from index \<open>i\<close> on.\<close>

fun new_or_modified :: "env \<Rightarrow> ReportFile list \<Rightarrow> ReportFile list \<Rightarrow> world \<Rightarrow> world" where
  "new_or_modified e [] prev w = w"
| "new_or_modified e (c # cs) prev w =
     (let (found, w) = inner_previous e c prev w;
          w = (if \<not> found
               then snd (log_file_change e w (owner c) (filename c) ''create'')
               else w)
      in new_or_modified e cs prev w)"

text \<open>The inner loop of the second part, over \<open>current_files\<close>, for the previous file
  \<open>p\<close>.\<close>

fun inner_current :: "ReportFile \<Rightarrow> ReportFile list \<Rightarrow> bool" where
  "inner_current p [] = False"
| "inner_current p (c # cs) = (if filename p = filename c then True else inner_current p cs)"

fun deleted_loop :: "env \<Rightarrow> ReportFile list \<Rightarrow> ReportFile list \<Rightarrow> world \<Rightarrow> world" where
  "deleted_loop e [] cur w = w"
| "deleted_loop e (p # ps) cur w =
     (let found = inner_current p cur;
          w = (if \<not> found
               then snd (log_file_change e w (owner p) (filename p) ''delete'')
               else w)
      in deleted_loop e ps cur w)"

definition monitor_directory_changes :: "env \<Rightarrow> world \<Rightarrow> int \<times> world" where
  "monitor_directory_changes e w =
     (let (rc, current_files, w) = scan_directory e w UPLOAD_DIR in
      if rc \<noteq> SUCCESS then (FAILURE, w)
      else
        case previous_files w of
          None \<Rightarrow>
            (SUCCESS, w\<lparr>previous_files := current_files, last_scan_time := e_time e\<rparr>)
        | Some prev \<Rightarrow>
            let cur = (case current_files of None \<Rightarrow> [] | Some fs \<Rightarrow> fs);
                w = new_or_modified e cur prev w;
                w = deleted_loop e prev cur w
            in (SUCCESS, w\<lparr>previous_files := current_files, last_scan_time := e_time e\<rparr>))"

section \<open>backup\_dashboard (backup.c)\<close>

text \<open>The loop over the entries of the dashboard directory, with \<open>success_count\<close> and
  \<open>file_count\<close>. The two counters are C \<open>int\<close>s, here integers: they agree for
  directories of fewer than \<open>2^31\<close> entries.\<close>

fun backup_loop ::
  "env \<Rightarrow> string \<Rightarrow> dirent list \<Rightarrow> int \<Rightarrow> int \<Rightarrow> world \<Rightarrow> int \<times> int \<times> world" where
  "backup_loop e backup_path [] success_count file_count w = (success_count, file_count, w)"
| "backup_loop e backup_path (entry # rest) success_count file_count w =
     (if d_is_dir entry then backup_loop e backup_path rest success_count file_count w
      else
        let src_path = snprintf_path MAX_PATH_LENGTH DASHBOARD_DIR (d_name entry);
            dest_path = snprintf_path MAX_PATH_LENGTH backup_path (d_name entry);
            file_count = file_count + 1;
            (rc, w) = copy_file e w src_path dest_path
        in if rc = SUCCESS then backup_loop e backup_path rest (success_count + 1) file_count w
           else backup_loop e backup_path rest success_count file_count
                  (log_error w ''Failed to backup file: %s'' [S (d_name entry)]))"

definition backup_path_of :: "env \<Rightarrow> string" where
  "backup_path_of e =
     (let now = e_time e;
          tstamp = e_strftime e ''%Y-%m-%d_%H-%M-%S'' now
      in take (MAX_PATH_LENGTH - 1) (BACKUP_DIR @ ''/backup_'' @ tstamp))"

definition backup_dashboard :: "env \<Rightarrow> world \<Rightarrow> int \<times> world" where
  "backup_dashboard e w =
     (let w = log_operation w ''Starting dashboard backup'' [];
          backup_path = backup_path_of e
      in if \<not> e_mkdir e backup_path then
           (FAILURE, log_error w ''Failed to create backup directory: %s'' [Strerror])
         else
           let w = w\<lparr>fs_trace := fs_trace w @ [Made_dir backup_path]\<rparr> in
           case e_opendir e DASHBOARD_DIR of
             None \<Rightarrow>
               (FAILURE, log_error w ''Failed to open dashboard directory: %s'' [Strerror])
           | Some entries \<Rightarrow>
               let (success_count, file_count, w) = backup_loop e backup_path entries 0 0 w in
               if success_count = file_count then
                 (SUCCESS,
                  log_operation w ''Backup completed successfully: %d files'' [I success_count])
               else
                 (if success_count > 0 then SUCCESS else FAILURE,
                  log_error w ''Backup partially completed: %d/%d files''
                    [I success_count, I file_count]))"

section \<open>receive\_ipc\_message (ipc.c)\<close>

text \<open>The result is the status and the buffer \<open>msg\<close>: \<open>Some\<close> record when \<open>read\<close>
  filled all of it.\<close>

definition receive_ipc_message :: "env \<Rightarrow> world \<Rightarrow> int \<times> IPCMessage option \<times> world" where
  "receive_ipc_message e w =
     (if fifo_fd w = - 1 then
        (FAILURE, None, log_error w ''FIFO not open for receiving message'' [])
      else
        let (bytes_read, errno, record_read) = e_fifo_read e in
        if bytes_read = - 1 then
          (if errno = EAGAIN \<or> errno = EWOULDBLOCK then (FAILURE, None, w)
           else (FAILURE, None, log_error w ''Failed to read from FIFO: %s'' [Strerror]))
        else if bytes_read \<noteq> sizeof_IPCMessage then
          (FAILURE, None, log_error w ''Partial read from FIFO: %ld bytes'' [I bytes_read])
        else (SUCCESS, Some record_read, w))"

section \<open>The daemon's loop (daemon.c)\<close>

fun signal_handler :: "world \<Rightarrow> signal \<Rightarrow> world" where
  "signal_handler w SIGTERM = w\<lparr>daemon_exit := 1\<rparr>"
| "signal_handler w SIGINT = w\<lparr>daemon_exit := 1\<rparr>"
| "signal_handler w SIGUSR1 = w\<lparr>force_backup := 1\<rparr>"
| "signal_handler w SIGUSR2 = w\<lparr>force_transfer := 1\<rparr>"
| "signal_handler w SIGHUP = w"

text \<open>
  Between two calls of an iteration the file system is no longer the same: the daemon
  itself has moved files, made a backup directory and changed permissions, and so may
  other processes have. So each call that an iteration makes is answered by an
  environment of its own: the reading of the clock at its start, the five steps of the
  scheduled sequence, the change detection, the three steps of the manual backup, and
  the \<open>sleep\<close> during which the signals arrive.
\<close>

record iteration_env =
  at_start :: env
  at_lock :: env
  at_transfer :: env
  at_check :: env
  at_backup :: env
  at_unlock :: env
  at_monitor :: env
  at_manual_lock :: env
  at_manual_backup :: env
  at_manual_unlock :: env
  at_sleep :: env

text \<open>The body of the first \<open>if\<close> of the loop: the transfer, the check for missing
  reports and the backup between \<open>lock_directories\<close> and \<open>unlock_directories\<close>.\<close>

definition transfer_and_backup :: "iteration_env \<Rightarrow> world \<Rightarrow> world" where
  "transfer_and_backup ie w =
     (let w = log_operation w ''Starting scheduled file transfer and backup'' [];
          (rl, w) = lock_directories (at_lock ie) w;
          (rt, w) = transfer_reports (at_transfer ie) w;
          w = (if rt = SUCCESS then log_operation w ''File transfer completed successfully'' []
               else log_error w ''File transfer failed'' []);
          (missing, w) = check_missing_reports (at_check ie) w;
          (rb, w) = backup_dashboard (at_backup ie) w;
          w = (if rb = SUCCESS then log_operation w ''Backup completed successfully'' []
               else log_error w ''Backup failed'' []);
          (ru, w) = unlock_directories (at_unlock ie) w
      in w\<lparr>force_transfer := 0\<rparr>)"

text \<open>The body of the inner \<open>if (force_backup)\<close>.\<close>

definition manual_backup :: "iteration_env \<Rightarrow> world \<Rightarrow> world" where
  "manual_backup ie w =
     (let w = log_operation w ''Starting manual backup'' [];
          (rl, w) = lock_directories (at_manual_lock ie) w;
          (rb, w) = backup_dashboard (at_manual_backup ie) w;
          w = (if rb = SUCCESS then log_operation w ''Manual backup completed successfully'' []
               else log_error w ''Manual backup failed'' []);
          (ru, w) = unlock_directories (at_manual_unlock ie) w
      in w\<lparr>force_backup := 0\<rparr>)"

text \<open>One iteration of the \<open>while\<close> loop, up to its \<open>sleep(1)\<close>; \<open>last_check\<close> is the
  local variable of \<open>daemon_main_loop\<close>.\<close>

definition daemon_iteration :: "iteration_env \<Rightarrow> world \<Rightarrow> int \<Rightarrow> world \<times> int" where
  "daemon_iteration ie w last_check =
     (let now = e_time (at_start ie);
          tm_now = e_localtime (at_start ie) now;
          w = (if (tm_hour tm_now = TRANSFER_HOUR \<and> tm_min tm_now = TRANSFER_MINUTE)
                  \<or> force_transfer w \<noteq> 0
               then transfer_and_backup ie w
               else w)
      in if now - last_check \<ge> 5 \<or> force_backup w \<noteq> 0 then
           let w = snd (monitor_directory_changes (at_monitor ie) w);
               last_check = now;
               w = (if force_backup w \<noteq> 0 then manual_backup ie w else w)
           in (w, last_check)
         else (w, last_check))"

text \<open>
  The \<open>while (!daemon_exit)\<close> loop has no bound of its own. It is run against the
  environments of its successive iterations: each iteration takes the next one, and
  its signals arrive during the \<open>sleep\<close>. The result is \<open>None\<close> when the loop is still
  running after the last of them, and the final world when it has left.
\<close>

fun daemon_loop :: "iteration_env list \<Rightarrow> world \<Rightarrow> int \<Rightarrow> world option" where
  "daemon_loop ies w last_check =
     (if daemon_exit w \<noteq> 0 then Some (log_operation w ''Exiting main daemon loop'' [])
      else
        (case ies of
           [] \<Rightarrow> None
         | ie # rest \<Rightarrow>
             let (w, last_check) = daemon_iteration ie w last_check;
                 w = foldl signal_handler w (e_signals (at_sleep ie))
             in daemon_loop rest w last_check))"

definition daemon_main_loop :: "iteration_env list \<Rightarrow> world \<Rightarrow> world option" where
  "daemon_main_loop ies w =
     (let last_check = 0;
          w = log_operation w ''Entering main daemon loop'' []
      in daemon_loop ies w last_check)"

section \<open>Notions used to state the properties\<close>

text \<open>The copies recorded in a list of changes, in its order, as pairs of source and
  destination.\<close>

fun copies :: "fs_op list \<Rightarrow> (string \<times> string) list" where
  "copies [] = []"
| "copies (Copied s d # ops) = (s, d) # copies ops"
| "copies (op # ops) = copies ops"

text \<open>The paths that \<open>transfer_reports\<close> and \<open>backup_dashboard\<close> build for a directory
  entry.\<close>

definition upload_path :: "dirent \<Rightarrow> string" where
  "upload_path entry = snprintf_path MAX_PATH_LENGTH UPLOAD_DIR (d_name entry)"

definition dashboard_path :: "dirent \<Rightarrow> string" where
  "dashboard_path entry = snprintf_path MAX_PATH_LENGTH DASHBOARD_DIR (d_name entry)"

definition backup_file_path :: "env \<Rightarrow> dirent \<Rightarrow> string" where
  "backup_file_path e entry = snprintf_path MAX_PATH_LENGTH (backup_path_of e) (d_name entry)"

text \<open>The entries \<open>backup_dashboard\<close> does not skip, and those of them whose
  \<open>copy_file\<close> returns \<open>SUCCESS\<close>.\<close>

definition regular_entries :: "dirent list \<Rightarrow> dirent list" where
  "regular_entries entries = filter (\<lambda>entry. \<not> d_is_dir entry) entries"

definition backup_copied :: "env \<Rightarrow> world \<Rightarrow> dirent list \<Rightarrow> dirent list" where
  "backup_copied e w entries =
     filter (\<lambda>entry. fst (copy_file e w (dashboard_path entry) (backup_file_path e entry)) = SUCCESS)
       (regular_entries entries)"

text \<open>The test of the loops of \<open>transfer_reports\<close> and \<open>check_missing_reports\<close> for an
  entry they do not skip.\<close>

definition is_report_entry :: "dirent \<Rightarrow> bool" where
  "is_report_entry entry =
     (\<not> (d_is_dir entry \<or> strstr (d_name entry) REPORT_EXTENSION = None))"

text \<open>The changes that \<open>move_file\<close> makes for an entry of the upload directory when it
  runs in the world \<open>w\<close>, and what it means for a list of changes to have transferred a
  file: it was renamed, or it was copied and its source removed.\<close>

definition changes_of_move :: "env \<Rightarrow> world \<Rightarrow> dirent \<Rightarrow> fs_op list" where
  "changes_of_move e w entry =
     drop (length (fs_trace w))
       (fs_trace (snd (move_file e w (upload_path entry) (dashboard_path entry))))"

definition transferred :: "fs_op list \<Rightarrow> string \<Rightarrow> string \<Rightarrow> bool" where
  "transferred ops s d =
     (Renamed s d \<in> set ops \<or> (Copied s d \<in> set ops \<and> Unlinked s \<in> set ops))"

definition moving_line :: "dirent \<Rightarrow> log_line" where
  "moving_line entry = (''Moving file: %s to %s'', [S (d_name entry), S DASHBOARD_DIR])"

text \<open>A department counts as present in a listing of the dashboard directory when an
  entry that the loop of \<open>check_missing_reports\<close> does not skip yields a label equal to
  its name but for the case of the letters.\<close>

definition department_present :: "dirent list \<Rightarrow> string \<Rightarrow> bool" where
  "department_present entries r =
     (\<exists>entry \<in> set entries. is_report_entry entry \<and>
        (case extract_department_from_filename (d_name entry) MAX_USER_LENGTH of
           Department dept \<Rightarrow> strcasecmp_eq dept r
         | _ \<Rightarrow> False))"

text \<open>The call of \<open>log_file_change\<close> that the change detection makes for a file, and the
  calls it makes for one file of the current and for one file of the previous inventory.
  \<open>find\<close> gives the first file of that name, where the inner loop of the code stops.\<close>

definition change_event :: "env \<Rightarrow> ReportFile \<Rightarrow> string \<Rightarrow> change_line" where
  "change_event e f action =
     \<lparr>cl_time = e_time e, cl_user = owner f, cl_file = filename f, cl_action = action\<rparr>"

definition events_for_current :: "env \<Rightarrow> ReportFile list \<Rightarrow> ReportFile \<Rightarrow> change_line list" where
  "events_for_current e prev c =
     (case find (\<lambda>p. filename p = filename c) prev of
        None \<Rightarrow> [change_event e c ''create'']
      | Some p \<Rightarrow> if timestamp c > timestamp p then [change_event e c ''modify''] else [])"

definition events_for_previous :: "env \<Rightarrow> ReportFile list \<Rightarrow> ReportFile \<Rightarrow> change_line list" where
  "events_for_previous e cur p =
     (if filename p \<in> set (map filename cur) then [] else [change_event e p ''delete''])"

text \<open>The events of a list of events that are about the file of a given name.\<close>

definition events_about :: "string \<Rightarrow> change_line list \<Rightarrow> change_line list" where
  "events_about name evs = filter (\<lambda>ev. cl_file ev = name) evs"

text \<open>A world that differs from another one only by messages added to the error log.\<close>

definition logs_errors_only :: "world \<Rightarrow> world \<Rightarrow> bool" where
  "logs_errors_only w w' = (\<exists>es. w' = w\<lparr>error_log := error_log w @ es\<rparr>)"

text \<open>A world that differs from another one only in what has been logged as errors and as
  changes of files.\<close>

definition changes_logs_only :: "world \<Rightarrow> world \<Rightarrow> bool" where
  "changes_logs_only w w' =
     (w' = w\<lparr>error_log := error_log w', change_events := change_events w',
            change_log := change_log w'\<rparr>)"

text \<open>The part of the world that steers the loop of the daemon and that the locking
  changes: the three flags and the permission bits.\<close>

definition control :: "world \<Rightarrow> int \<times> int \<times> int \<times> (string \<Rightarrow> nat)" where
  "control w = (daemon_exit w, force_backup w, force_transfer w, mode_of w)"

text \<open>The messages with which the steps of the loop announce themselves in the
  operation log, and the announcements in a world's operation log, in their order.\<close>

definition phase_markers :: "string list" where
  "phase_markers =
     [''Starting scheduled file transfer and backup'',
      ''Locking directories for backup/transfer'',
      ''Starting report transfer from upload to dashboard'',
      ''Checking for missing department reports'',
      ''Starting dashboard backup'',
      ''Unlocking directories after backup/transfer'',
      ''Starting manual backup'']"

definition phases :: "world \<Rightarrow> string list" where
  "phases w = filter (\<lambda>m. m \<in> set phase_markers) (map fst (operation_log w))"

text \<open>The scheduled time by the clock of an environment, and the number of times the
  scheduled sequence has been started.\<close>

definition transfer_due :: "env \<Rightarrow> bool" where
  "transfer_due e =
     (tm_hour (e_localtime e (e_time e)) = TRANSFER_HOUR \<and>
      tm_min (e_localtime e (e_time e)) = TRANSFER_MINUTE)"


text \<open>The permission bits after an attempt of \<open>chmod\<close> on a path, and after the two
  attempts of \<open>lock_directories\<close> and of \<open>unlock_directories\<close>.\<close>

definition chmod_result :: "env \<Rightarrow> (string \<Rightarrow> nat) \<Rightarrow> string \<Rightarrow> nat \<Rightarrow> (string \<Rightarrow> nat)" where
  "chmod_result e modes p mode = (if e_chmod e p mode then modes(p := mode) else modes)"

definition locked_modes :: "env \<Rightarrow> (string \<Rightarrow> nat) \<Rightarrow> (string \<Rightarrow> nat)" where
  "locked_modes e modes =
     chmod_result e (chmod_result e modes UPLOAD_DIR LOCKED_PERMISSIONS)
       DASHBOARD_DIR LOCKED_PERMISSIONS"

definition unlocked_modes :: "env \<Rightarrow> (string \<Rightarrow> nat) \<Rightarrow> (string \<Rightarrow> nat)" where
  "unlocked_modes e modes =
     chmod_result e (chmod_result e modes UPLOAD_DIR UPLOAD_PERMISSIONS)
       DASHBOARD_DIR DASHBOARD_PERMISSIONS"

text \<open>The lines that \<open>unlock_directories\<close> writes to the error log in an environment:
  for each of the two directories whose \<open>chmod\<close> fails the line of
  \<open>set_directory_permissions\<close> and then its own.\<close>

definition unlock_failures :: "env \<Rightarrow> log_line list" where
  "unlock_failures e =
     (if e_chmod e UPLOAD_DIR UPLOAD_PERMISSIONS then []
      else [(''Failed to set permissions on %s: %s'', [S UPLOAD_DIR, Strerror]),
            (''Failed to unlock upload directory'', [])]) @
     (if e_chmod e DASHBOARD_DIR DASHBOARD_PERMISSIONS then []
      else [(''Failed to set permissions on %s: %s'', [S DASHBOARD_DIR, Strerror]),
            (''Failed to unlock dashboard directory'', [])])"

text \<open>The announcements of one run of the scheduled sequence and of one manual
  backup.\<close>

definition scheduled_phases :: "string list" where
  "scheduled_phases =
     [''Starting scheduled file transfer and backup'',
      ''Locking directories for backup/transfer'',
      ''Starting report transfer from upload to dashboard'',
      ''Checking for missing department reports'',
      ''Starting dashboard backup'',
      ''Unlocking directories after backup/transfer'']"

definition manual_phases :: "string list" where
  "manual_phases =
     [''Starting manual backup'',
      ''Locking directories for backup/transfer'',
      ''Starting dashboard backup'',
      ''Unlocking directories after backup/transfer'']"

text \<open>The entries of a directory that \<open>scan_directory\<close> puts into the inventory: those
  it does not skip and whose \<open>stat\<close> succeeds.\<close>

definition scanned :: "env \<Rightarrow> string \<Rightarrow> dirent \<Rightarrow> bool" where
  "scanned e dir_path entry =
     (\<not> (d_is_dir entry \<or> (case d_name entry of [] \<Rightarrow> False | c # cs \<Rightarrow> c = CHR ''.'')) \<and>
      e_stat e (snprintf_path MAX_PATH_LENGTH dir_path (d_name entry)) \<noteq> None)"

section \<open>An environment and a world to run the functions in\<close>

text \<open>
  \<open>calm_env\<close> is an operating system in which every call succeeds: the clock stands at
  noon of the first day, both directories hold only \<open>.\<close> and \<open>..\<close>, every file is empty
  and owned by root, and the FIFO has no data. \<open>started_world\<close> is the state in which a
  successful \<open>daemon_init\<close> leaves the daemon: the initial values of the globals, the
  FIFO open, and the two directories with their normal permissions.
\<close>

definition dot_entries :: "dirent list" where
  "dot_entries = [\<lparr>d_name = ''.'', d_is_dir = True\<rparr>, \<lparr>d_name = ''..'', d_is_dir = True\<rparr>]"

definition regular_file :: "string \<Rightarrow> dirent" where
  "regular_file name = \<lparr>d_name = name, d_is_dir = False\<rparr>"

definition empty_message :: IPCMessage where
  "empty_message = \<lparr>msg_type = 0, sender_pid = 0, status = 0, message = []\<rparr>"

definition EIO :: int where "EIO = 5"

definition calm_env :: env where
  "calm_env =
     \<lparr>e_time = 43200,
      e_localtime = (\<lambda>t. \<lparr>tm_hour = (t div 3600) mod 24, tm_min = (t div 60) mod 60\<rparr>),
      e_strftime = (\<lambda>format t. ''1970-01-01_12-00-00''),
      e_format_d = (\<lambda>uid. ''0''),
      e_opendir = (\<lambda>p. Some dot_entries),
      e_stat = (\<lambda>p. Some \<lparr>st_mtime = 0, st_size = 0, st_uid = 0\<rparr>),
      e_getpwuid = (\<lambda>uid. Some ''root''),
      e_rename = (\<lambda>source destination. True),
      e_unlink = (\<lambda>p. True),
      e_chmod = (\<lambda>p mode. True),
      e_mkdir = (\<lambda>p. True),
      e_fopen_append = (\<lambda>p. True),
      e_malloc = (\<lambda>n. True),
      e_realloc = (\<lambda>n. True),
      e_open_read = (\<lambda>p. Some []),
      e_open_write = (\<lambda>p. True),
      e_write = (\<lambda>p k n. n),
      e_fifo_read = (- 1, EAGAIN, empty_message),
      e_signals = []\<rparr>"

definition started_world :: world where
  "started_world =
     \<lparr>daemon_exit = 0,
      force_backup = 0,
      force_transfer = 0,
      last_scan_time = 0,
      previous_files = None,
      fifo_fd = 3,
      mode_of = (\<lambda>p. if p = UPLOAD_DIR then UPLOAD_PERMISSIONS
                     else if p = DASHBOARD_DIR then DASHBOARD_PERMISSIONS else 0),
      fs_trace = [],
      operation_log = [],
      error_log = [],
      change_events = [],
      change_log = []\<rparr>"

text \<open>A listing of two report files, and the calm environment with that listing in
  every directory and with some files that cannot be opened for reading; every other
  file is read in one piece of 100 bytes.\<close>

definition two_reports :: "dirent list" where
  "two_reports =
     dot_entries @
     [regular_file ''report_Sales_2024-01-01.xml'', regular_file ''report_Warehouse_2024-01-01.xml'']"

definition unreadable_env :: "dirent list \<Rightarrow> string list \<Rightarrow> env" where
  "unreadable_env listing unreadable =
     calm_env\<lparr>e_opendir := (\<lambda>p. Some listing),
              e_open_read := (\<lambda>p. if p \<in> set unreadable then None else Some [100])\<rparr>"

text \<open>The same, where the files that cannot be read cannot be renamed either.\<close>

definition stuck_env :: "dirent list \<Rightarrow> string list \<Rightarrow> env" where
  "stuck_env listing stuck =
     (unreadable_env listing stuck)\<lparr>e_rename := (\<lambda>source destination. source \<notin> set stuck)\<rparr>"

text \<open>An element of an inventory of the upload directory as \<open>scan_directory\<close> fills
  it for an empty file of root, and the calm environment with a given listing in which
  the files of some paths were modified at time 200 and all others at time 100.\<close>

definition report_file :: "string \<Rightarrow> string option \<Rightarrow> int \<Rightarrow> ReportFile" where
  "report_file name dept mtime =
     \<lparr>path = UPLOAD_DIR @ ''/'' @ name, filename = name, department = dept,
      timestamp = mtime, owner = Some ''root'', fsize = 0\<rparr>"

definition touched_env :: "dirent list \<Rightarrow> string list \<Rightarrow> env" where
  "touched_env listing touched =
     calm_env\<lparr>e_opendir := (\<lambda>p. Some listing),
              e_stat := (\<lambda>p. Some \<lparr>st_mtime = (if p \<in> set touched then 200 else 100),
                                   st_size = 0, st_uid = 0\<rparr>)\<rparr>"

definition three_uploads :: "dirent list" where
  "three_uploads =
     dot_entries @
     [regular_file ''report_Sales.xml'', regular_file ''report_Warehouse.xml'',
      regular_file ''report_New.xml'']"

text \<open>A previous inventory of three files, the world of a daemon that holds it, and the
  environment of a later scan with the inventory it produces: the report of Sales is
  newer, that of the warehouse is as it was, one report is gone and one is new.\<close>

definition previous_three :: "ReportFile list" where
  "previous_three =
     [report_file ''report_Sales.xml'' (Some ''Sales'') 100,
      report_file ''report_Warehouse.xml'' (Some ''Warehouse'') 100,
      report_file ''report_Old.xml'' (Some ''Old'') 100]"

definition current_three :: "ReportFile list" where
  "current_three =
     [report_file ''report_Sales.xml'' (Some ''Sales'') 200,
      report_file ''report_Warehouse.xml'' (Some ''Warehouse'') 100,
      report_file ''report_New.xml'' (Some ''New'') 100]"

definition watching_world :: world where
  "watching_world = started_world\<lparr>previous_files := Some previous_three\<rparr>"

definition sales_touched_env :: env where
  "sales_touched_env = touched_env three_uploads [''/var/report_system/upload/report_Sales.xml'']"

text \<open>The calm environment at a given time of the first day, and the same at the
  scheduled time where \<open>chmod\<close> succeeds only when it takes all permissions away.\<close>

definition calm_env_at :: "int \<Rightarrow> env" where
  "calm_env_at t = calm_env\<lparr>e_time := t\<rparr>"

definition jammed_env :: env where
  "jammed_env = (calm_env_at 3600)\<lparr>e_chmod := (\<lambda>p mode. mode = LOCKED_PERMISSIONS)\<rparr>"

text \<open>An iteration in which every call finds the same environment; the environment at
  the scheduled time in which no \<open>chmod\<close> succeeds; the iteration at the scheduled time
  in which the locking succeeds and the unlocking of the scheduled run fails; and the
  iteration in which the scheduled run unlocks both directories and the manual backup
  that follows it locks them and cannot unlock them.\<close>

definition steady :: "env \<Rightarrow> iteration_env" where
  "steady e =
     \<lparr>at_start = e, at_lock = e, at_transfer = e, at_check = e, at_backup = e,
      at_unlock = e, at_monitor = e, at_manual_lock = e, at_manual_backup = e,
      at_manual_unlock = e, at_sleep = e\<rparr>"

definition no_chmod_env :: env where
  "no_chmod_env = (calm_env_at 3600)\<lparr>e_chmod := (\<lambda>p mode. False)\<rparr>"

definition stuck_iteration :: iteration_env where
  "stuck_iteration = (steady (calm_env_at 3600))\<lparr>at_unlock := no_chmod_env\<rparr>"

definition relocked_iteration :: iteration_env where
  "relocked_iteration = (steady (calm_env_at 3600))\<lparr>at_manual_unlock := no_chmod_env\<rparr>"

declare daemon_loop.simps [simp del]

declare SUCCESS_def [simp] FAILURE_def [simp]

section \<open>Facts about the string functions\<close>

lemma starts_with_iff: "starts_with s n \<longleftrightarrow> take (length n) s = n"
  by (induction s n rule: starts_with.induct) auto

lemma starts_with_append: "starts_with (n @ r) n"
  by (simp add: starts_with_iff)

lemma strchr_None_iff: "strchr s c = None \<longleftrightarrow> c \<notin> set s"
  by (induction s) auto

lemma strchr_first: "c \<notin> set a \<Longrightarrow> strchr (a @ c # b) c = Some (length a)"
  by (induction a) auto

lemma strchr_Some_split:
  "strchr s c = Some k \<Longrightarrow> k < length s \<and> s ! k = c \<and> c \<notin> set (take k s)"
proof (induction s arbitrary: k)
  case Nil
  then show ?case by simp
next
  case (Cons x xs)
  show ?case
  proof (cases "x = c")
    case True
    with Cons.prems show ?thesis by simp
  next
    case False
    with Cons.prems obtain j where j: "strchr xs c = Some j" "k = Suc j"
      by auto
    from Cons.IH [OF j(1)] False j(2) show ?thesis
      by auto
  qed
qed

lemma strstr_Some_occurs: "strstr s n = Some k \<Longrightarrow> take (length n) (drop k s) = n"
proof (induction s arbitrary: k)
  case Nil
  then show ?case by (simp split: if_splits)
next
  case (Cons x xs)
  show ?case
  proof (cases "starts_with (x # xs) n")
    case True
    with Cons.prems show ?thesis by (simp add: starts_with_iff)
  next
    case False
    with Cons.prems obtain j where j: "strstr xs n = Some j" "k = Suc j"
      by auto
    from Cons.IH [OF j(1)] j(2) show ?thesis by simp
  qed
qed

lemma strstr_None_no_occurrence: "strstr s n = None \<Longrightarrow> s \<noteq> a @ n @ b"
proof (induction s arbitrary: a)
  case Nil
  then show ?case by (auto split: if_splits)
next
  case (Cons x xs)
  from Cons.prems have nsw: "\<not> starts_with (x # xs) n" and rest: "strstr xs n = None"
    by (auto split: if_splits)
  show ?case
  proof (cases a)
    case Nil
    with nsw show ?thesis using starts_with_append [of n b] by auto
  next
    case (Cons y ys)
    with Cons.IH [OF rest, of ys] show ?thesis by auto
  qed
qed

lemma strstr_occurrence_found: "\<exists>k. strstr (a @ n @ b) n = Some k"
  using strstr_None_no_occurrence [of "a @ n @ b" n a b] by (cases "strstr (a @ n @ b) n") auto

lemma strstr_Some_iff_substring: "(\<exists>k. strstr s n = Some k) \<longleftrightarrow> (\<exists>a b. s = a @ n @ b)"
proof
  assume "\<exists>k. strstr s n = Some k"
  then obtain k where k: "strstr s n = Some k" ..
  from strstr_Some_occurs [OF k] have "s = take k s @ n @ drop (length n) (drop k s)"
    by (metis append_take_drop_id)
  then show "\<exists>a b. s = a @ n @ b" by blast
next
  assume "\<exists>a b. s = a @ n @ b"
  then show "\<exists>k. strstr s n = Some k" using strstr_occurrence_found by blast
qed

lemma strstr_first:
  "\<forall>j < length a. take (length n) (drop j (a @ n @ b)) \<noteq> n
     \<Longrightarrow> strstr (a @ n @ b) n = Some (length a)"
proof (induction a)
  case Nil
  have "starts_with (n @ b) n" by (simp add: starts_with_iff)
  then show ?case by (cases "n @ b") auto
next
  case (Cons x xs)
  from Cons.prems have "take (length n) (drop 0 ((x # xs) @ n @ b)) \<noteq> n" by blast
  then have nsw: "\<not> starts_with (x # xs @ n @ b) n" by (simp add: starts_with_iff)
  have "\<forall>j < length xs. take (length n) (drop j (xs @ n @ b)) \<noteq> n"
  proof (intro allI impI)
    fix j assume "j < length xs"
    then have "Suc j < length (x # xs)" by simp
    with Cons.prems have "take (length n) (drop (Suc j) ((x # xs) @ n @ b)) \<noteq> n" by blast
    then show "take (length n) (drop j (xs @ n @ b)) \<noteq> n" by simp
  qed
  from Cons.IH [OF this] nsw show ?case by simp
qed

section \<open>The department label of a file name\<close>

lemmas extract_defs =
  extract_department_from_filename_def REPORT_PREFIX_def REPORT_EXTENSION_def strncmp_eq_def
  MAX_USER_LENGTH_def

lemma extract_wrong_prefix:
  "take 7 fname \<noteq> ''report_'' \<Longrightarrow> extract_department_from_filename fname dept_size = Null"
  by (simp add: extract_defs eval_nat_numeral)

lemma extract_underscore:
  assumes "0 < dept_size" and "CHR ''_'' \<notin> set lbl"
  shows "extract_department_from_filename (''report_'' @ lbl @ ''_'' @ rest) dept_size =
           Department (if length lbl < dept_size then lbl else take (dept_size - 1) lbl)"
proof -
  from assms(2) have "strchr (lbl @ CHR ''_'' # rest) (CHR ''_'') = Some (length lbl)"
    by (rule strchr_first)
  with assms(1) show ?thesis by (auto simp: extract_defs)
qed

lemma extract_extension:
  assumes "0 < dept_size" and "CHR ''_'' \<notin> set (lbl @ ''.xml'' @ rest)"
    and "\<forall>j < length lbl. take 4 (drop j (lbl @ ''.xml'' @ rest)) \<noteq> ''.xml''"
  shows "extract_department_from_filename (''report_'' @ lbl @ ''.xml'' @ rest) dept_size =
           Department (if length lbl < dept_size then lbl else take (dept_size - 1) lbl)"
proof -
  from assms(2) have no: "strchr (lbl @ ''.xml'' @ rest) (CHR ''_'') = None"
    by (simp add: strchr_None_iff)
  have len: "length ''.xml'' = 4" by simp
  from assms(3)
  have "\<forall>j < length lbl. take (length ''.xml'') (drop j (lbl @ ''.xml'' @ rest)) \<noteq> ''.xml''"
    by (simp only: len)
  then have "strstr (lbl @ ''.xml'' @ rest) ''.xml'' = Some (length lbl)"
    by (rule strstr_first)
  with no assms(1) show ?thesis by (auto simp: extract_defs)
qed

text \<open>
  Claim C8, as the code has it. A file name that does not start with \<open>report_\<close> gives
  no label (NULL). After the prefix, the label runs up to the first underscore; without
  any underscore it runs up to the first \<open>.xml\<close>. The label is returned whole when it
  fits the caller's buffer with its terminator (fewer than \<open>dept_size\<close> characters),
  and cut to its first \<open>dept_size - 1\<close> characters when it does not. With the buffer
  size \<open>MAX_USER_LENGTH\<close> of the daemon's calls, \<open>report_Sales_2024-01-01.xml\<close> and
  \<open>report_Sales.xml\<close> give \<open>Sales\<close>, and \<open>invoice_2024.xml\<close> gives no label.
\<close>

theorem extract_department_label:
  "(take 7 fname \<noteq> ''report_'' \<longrightarrow>
      extract_department_from_filename fname dept_size = Null) \<and>
   (0 < dept_size \<and> fname = ''report_'' @ lbl @ ''_'' @ rest \<and> CHR ''_'' \<notin> set lbl \<longrightarrow>
      extract_department_from_filename fname dept_size =
        Department (if length lbl < dept_size then lbl else take (dept_size - 1) lbl)) \<and>
   (0 < dept_size \<and> fname = ''report_'' @ lbl @ ''.xml'' @ rest \<and>
    CHR ''_'' \<notin> set (lbl @ ''.xml'' @ rest) \<and>
    (\<forall>j < length lbl. take 4 (drop j (lbl @ ''.xml'' @ rest)) \<noteq> ''.xml'') \<longrightarrow>
      extract_department_from_filename fname dept_size =
        Department (if length lbl < dept_size then lbl else take (dept_size - 1) lbl)) \<and>
   extract_department_from_filename ''report_Sales_2024-01-01.xml'' MAX_USER_LENGTH =
     Department ''Sales'' \<and>
   extract_department_from_filename ''report_Sales.xml'' MAX_USER_LENGTH = Department ''Sales'' \<and>
   extract_department_from_filename ''invoice_2024.xml'' MAX_USER_LENGTH = Null"
proof (intro conjI impI)
  assume "take 7 fname \<noteq> ''report_''"
  then show "extract_department_from_filename fname dept_size = Null"
    by (rule extract_wrong_prefix)
next
  assume "0 < dept_size \<and> fname = ''report_'' @ lbl @ ''_'' @ rest \<and> CHR ''_'' \<notin> set lbl"
  then show "extract_department_from_filename fname dept_size =
        Department (if length lbl < dept_size then lbl else take (dept_size - 1) lbl)"
    using extract_underscore [of dept_size lbl rest] by blast
next
  assume "0 < dept_size \<and> fname = ''report_'' @ lbl @ ''.xml'' @ rest \<and>
    CHR ''_'' \<notin> set (lbl @ ''.xml'' @ rest) \<and>
    (\<forall>j < length lbl. take 4 (drop j (lbl @ ''.xml'' @ rest)) \<noteq> ''.xml'')"
  then show "extract_department_from_filename fname dept_size =
        Department (if length lbl < dept_size then lbl else take (dept_size - 1) lbl)"
    using extract_extension [of dept_size lbl rest] by blast
next
  show "extract_department_from_filename ''report_Sales_2024-01-01.xml'' MAX_USER_LENGTH =
     Department ''Sales''"
    by (simp add: extract_defs)
next
  show "extract_department_from_filename ''report_Sales.xml'' MAX_USER_LENGTH =
     Department ''Sales''"
    by (simp add: extract_defs)
next
  show "extract_department_from_filename ''invoice_2024.xml'' MAX_USER_LENGTH = Null"
    by (simp add: extract_defs)
qed

text \<open>The theorem at three file names: a wrong prefix, a label of five characters before
  an underscore read into a buffer of four bytes, and a label before the extension.\<close>

theorem extract_department_label_witness:
  "extract_department_from_filename ''invoice_2024.xml'' 256 = Null \<and>
   extract_department_from_filename ''report_Sales_2024-01-01.xml'' 4 = Department ''Sal'' \<and>
   extract_department_from_filename ''report_Sales.xml'' 256 = Department ''Sales''"
proof (intro conjI)
  have "take 7 ''invoice_2024.xml'' \<noteq> ''report_''" by simp
  with extract_department_label [of "''invoice_2024.xml''" 256]
  show "extract_department_from_filename ''invoice_2024.xml'' 256 = Null" by blast
next
  have "0 < (4::nat) \<and> ''report_Sales_2024-01-01.xml'' = ''report_'' @ ''Sales'' @ ''_'' @ ''2024-01-01.xml''
        \<and> CHR ''_'' \<notin> set ''Sales''"
    by simp
  with extract_department_label [of "''report_Sales_2024-01-01.xml''" 4 "''Sales''" "''2024-01-01.xml''"]
  have "extract_department_from_filename ''report_Sales_2024-01-01.xml'' 4 =
        Department (if length ''Sales'' < (4::nat) then ''Sales'' else take (4 - 1) ''Sales'')"
    by blast
  then show "extract_department_from_filename ''report_Sales_2024-01-01.xml'' 4 = Department ''Sal''"
    by simp
next
  have "0 < (256::nat) \<and> ''report_Sales.xml'' = ''report_'' @ ''Sales'' @ ''.xml'' @ [] \<and>
        CHR ''_'' \<notin> set (''Sales'' @ ''.xml'' @ []) \<and>
        (\<forall>j < length ''Sales''. take 4 (drop j (''Sales'' @ ''.xml'' @ [])) \<noteq> ''.xml'')"
    by (simp add: less_Suc_eq)
  with extract_department_label [of "''report_Sales.xml''" 256 "''Sales''" "[]"]
  have "extract_department_from_filename ''report_Sales.xml'' 256 =
        Department (if length ''Sales'' < (256::nat) then ''Sales'' else take (256 - 1) ''Sales'')"
    by blast
  then show "extract_department_from_filename ''report_Sales.xml'' 256 = Department ''Sales''"
    by simp
qed

text \<open>Claim C8 as the specification words it, without the buffer, fails: a label of 300
  characters before the underscore comes back as its first 255 characters from the
  buffer of \<open>MAX_USER_LENGTH\<close> bytes.\<close>

theorem extract_department_label_counterexample:
  "extract_department_from_filename (''report_'' @ replicate 300 (CHR ''A'') @ ''_x.xml'')
      MAX_USER_LENGTH = Department (replicate 255 (CHR ''A'')) \<and>
   Department (replicate 255 (CHR ''A'')) \<noteq> Department (replicate 300 (CHR ''A''))"
proof
  have "extract_department_from_filename (''report_'' @ replicate 300 (CHR ''A'') @ ''_'' @ ''x.xml'')
          MAX_USER_LENGTH =
        Department (if length (replicate 300 (CHR ''A'')) < MAX_USER_LENGTH
                    then replicate 300 (CHR ''A'')
                    else take (MAX_USER_LENGTH - 1) (replicate 300 (CHR ''A'')))"
    by (rule extract_underscore) (simp_all add: MAX_USER_LENGTH_def)
  then show "extract_department_from_filename (''report_'' @ replicate 300 (CHR ''A'') @ ''_x.xml'')
      MAX_USER_LENGTH = Department (replicate 255 (CHR ''A''))"
    by (simp add: MAX_USER_LENGTH_def)
next
  have "length (replicate 255 (CHR ''A'')) \<noteq> length (replicate 300 (CHR ''A''))"
    by simp
  then have "replicate 255 (CHR ''A'') \<noteq> replicate 300 (CHR ''A'')"
    by metis
  then show "Department (replicate 255 (CHR ''A'')) \<noteq> Department (replicate 300 (CHR ''A''))"
    by simp
qed
section \<open>What the logging and copying functions change\<close>

lemma copies_append: "copies (a @ b) = copies a @ copies b"
  by (induction a rule: copies.induct) auto

lemma log_error_fields [simp]:
  "fs_trace (log_error w f a) = fs_trace w"
  "operation_log (log_error w f a) = operation_log w"
  "error_log (log_error w f a) = error_log w @ [(f, a)]"
  "previous_files (log_error w f a) = previous_files w"
  "mode_of (log_error w f a) = mode_of w"
  "change_events (log_error w f a) = change_events w"
  "force_transfer (log_error w f a) = force_transfer w"
  "force_backup (log_error w f a) = force_backup w"
  by (simp_all add: log_error_def)

lemma log_operation_fields [simp]:
  "fs_trace (log_operation w f a) = fs_trace w"
  "operation_log (log_operation w f a) = operation_log w @ [(f, a)]"
  "error_log (log_operation w f a) = error_log w"
  "previous_files (log_operation w f a) = previous_files w"
  "mode_of (log_operation w f a) = mode_of w"
  "change_events (log_operation w f a) = change_events w"
  "force_transfer (log_operation w f a) = force_transfer w"
  "force_backup (log_operation w f a) = force_backup w"
  by (simp_all add: log_operation_def)

lemma copy_file_status_independent:
  "fst (copy_file e w s d) = fst (copy_file e w' s d)"
  by (simp add: copy_file_def Let_def split: option.splits prod.splits)

lemma copy_file_copies:
  "copies (fs_trace (snd (copy_file e w s d))) =
     copies (fs_trace w) @ (if fst (copy_file e w s d) = SUCCESS then [(s, d)] else [])"
  by (simp add: copy_file_def Let_def copies_append split: option.splits prod.splits)

lemma copy_file_operation_log:
  "operation_log (snd (copy_file e w s d)) = operation_log w"
  by (simp add: copy_file_def Let_def split: option.splits prod.splits)

lemma log_file_change_fields [simp]:
  "fs_trace (snd (log_file_change e w u f a)) = fs_trace w"
  "operation_log (snd (log_file_change e w u f a)) = operation_log w"
  "previous_files (snd (log_file_change e w u f a)) = previous_files w"
  "mode_of (snd (log_file_change e w u f a)) = mode_of w"
  "force_transfer (snd (log_file_change e w u f a)) = force_transfer w"
  "force_backup (snd (log_file_change e w u f a)) = force_backup w"
  "change_events (snd (log_file_change e w u f a)) =
     change_events w @ [\<lparr>cl_time = e_time e, cl_user = u, cl_file = f, cl_action = a\<rparr>]"
  by (simp_all add: log_file_change_def Let_def)

lemma get_file_owner_fields [simp]:
  "fs_trace (snd (snd (get_file_owner e w p n))) = fs_trace w"
  "operation_log (snd (snd (get_file_owner e w p n))) = operation_log w"
  "previous_files (snd (snd (get_file_owner e w p n))) = previous_files w"
  "mode_of (snd (snd (get_file_owner e w p n))) = mode_of w"
  "change_events (snd (snd (get_file_owner e w p n))) = change_events w"
  "force_transfer (snd (snd (get_file_owner e w p n))) = force_transfer w"
  "force_backup (snd (snd (get_file_owner e w p n))) = force_backup w"
  by (simp_all add: get_file_owner_def split: option.splits)

lemma move_file_status_independent:
  "fst (move_file e w s d) = fst (move_file e w' s d)"
  using copy_file_status_independent [of e w s d w']
  by (simp add: move_file_def Let_def case_prod_beta)

lemma move_file_operation_log [simp]:
  "operation_log (snd (move_file e w s d)) = operation_log w"
  using copy_file_operation_log [of e w s d]
  by (simp add: move_file_def Let_def case_prod_beta)

lemma copy_file_appends:
  "\<exists>ops. \<forall>w. fs_trace (snd (copy_file e w s d)) = fs_trace w @ ops"
proof (cases "e_open_read e s")
  case None
  then have "\<forall>w. fs_trace (snd (copy_file e w s d)) = fs_trace w @ []"
    by (simp add: copy_file_def)
  then show ?thesis ..
next
  case (Some reads)
  show ?thesis
  proof (cases "e_open_write e d")
    case False
    with Some have "\<forall>w. fs_trace (snd (copy_file e w s d)) = fs_trace w @ []"
      by (simp add: copy_file_def)
    then show ?thesis ..
  next
    case True
    obtain result bytes_read where l: "copy_loop (e_write e d) 0 reads = (result, bytes_read)"
      by (cases "copy_loop (e_write e d) 0 reads")
    from Some True l
    have "\<forall>w. fs_trace (snd (copy_file e w s d)) =
            fs_trace w @ (Created d # (if result = SUCCESS \<and> bytes_read \<noteq> - 1
                                       then [Copied s d] else []))"
      by (simp add: copy_file_def Let_def)
    then show ?thesis ..
  qed
qed

lemma move_file_appends:
  "\<exists>ops. \<forall>w. fs_trace (snd (move_file e w s d)) = fs_trace w @ ops"
proof (cases "e_rename e s d")
  case True
  then have "\<forall>w. fs_trace (snd (move_file e w s d)) = fs_trace w @ [Renamed s d]"
    by (simp add: move_file_def)
  then show ?thesis ..
next
  case False
  from copy_file_appends [of e s d] obtain ops where
    ops: "\<And>w. fs_trace (snd (copy_file e w s d)) = fs_trace w @ ops"
    by blast
  have "\<forall>w. fs_trace (snd (move_file e w s d)) =
          fs_trace w @ ops @
          (if fst (copy_file e started_world s d) = SUCCESS \<and> e_unlink e s then [Unlinked s] else [])"
  proof
    fix w
    have "fst (copy_file e w s d) = fst (copy_file e started_world s d)"
      by (rule copy_file_status_independent)
    with False ops [of w] show "fs_trace (snd (move_file e w s d)) =
          fs_trace w @ ops @
          (if fst (copy_file e started_world s d) = SUCCESS \<and> e_unlink e s then [Unlinked s] else [])"
      by (simp add: move_file_def Let_def case_prod_beta)
  qed
  then show ?thesis ..
qed

lemma move_file_trace:
  "fs_trace (snd (move_file e w s d)) =
     fs_trace w @ drop (length (fs_trace w0)) (fs_trace (snd (move_file e w0 s d)))"
proof -
  from move_file_appends [of e s d] obtain ops where
    "\<And>w. fs_trace (snd (move_file e w s d)) = fs_trace w @ ops"
    by blast
  then show ?thesis by simp
qed

lemma changes_of_move_independent:
  "changes_of_move e w entry = changes_of_move e w0 entry"
proof -
  from move_file_appends [of e "upload_path entry" "dashboard_path entry"] obtain ops where
    "\<And>w. fs_trace (snd (move_file e w (upload_path entry) (dashboard_path entry))) =
           fs_trace w @ ops"
    by blast
  then show ?thesis by (simp add: changes_of_move_def)
qed

lemma move_file_changes:
  "fs_trace (snd (move_file e w (upload_path entry) (dashboard_path entry))) =
     fs_trace w @ changes_of_move e w0 entry"
  unfolding changes_of_move_def by (rule move_file_trace)

text \<open>The changes of one move amount to a transfer exactly when \<open>move_file\<close> returns
  \<open>SUCCESS\<close>.\<close>

lemma copy_file_changes_cases:
  "drop (length (fs_trace w)) (fs_trace (snd (copy_file e w s d))) =
     (if fst (copy_file e w s d) = SUCCESS then [Created d, Copied s d]
      else if e_open_read e s \<noteq> None \<and> e_open_write e d then [Created d] else [])"
  by (simp add: copy_file_def Let_def case_prod_beta split: option.splits)

lemma move_file_status:
  "fst (move_file e w s d) =
     (if e_rename e s d \<or> (fst (copy_file e w s d) = SUCCESS \<and> e_unlink e s)
      then SUCCESS else FAILURE)"
  by (simp add: move_file_def Let_def case_prod_beta)

lemma move_file_changes_cases:
  "drop (length (fs_trace w)) (fs_trace (snd (move_file e w s d))) =
     (if e_rename e s d then [Renamed s d]
      else drop (length (fs_trace w)) (fs_trace (snd (copy_file e w s d))) @
           (if fst (copy_file e w s d) = SUCCESS \<and> e_unlink e s then [Unlinked s] else []))"
proof -
  from copy_file_appends [of e s d] obtain ops where
    "\<And>w. fs_trace (snd (copy_file e w s d)) = fs_trace w @ ops"
    by blast
  then show ?thesis by (simp add: move_file_def Let_def case_prod_beta)
qed

lemma move_file_transferred:
  "transferred (drop (length (fs_trace w)) (fs_trace (snd (move_file e w s d)))) s d \<longleftrightarrow>
     fst (move_file e w s d) = SUCCESS"
  unfolding move_file_changes_cases copy_file_changes_cases move_file_status
  by (simp add: transferred_def)

lemmas example_defs =
  calm_env_def started_world_def two_reports_def unreadable_env_def stuck_env_def
  dot_entries_def regular_file_def empty_message_def report_file_def touched_env_def
  three_uploads_def calm_env_at_def jammed_env_def steady_def no_chmod_env_def
  stuck_iteration_def relocked_iteration_def

lemmas path_defs =
  snprintf_path_def MAX_PATH_LENGTH_def UPLOAD_DIR_def DASHBOARD_DIR_def BACKUP_DIR_def
  backup_path_of_def upload_path_def dashboard_path_def backup_file_path_def

section \<open>Receiving a message from the FIFO\<close>

text \<open>
  Claim C3, as the code has it. \<open>receive_ipc_message\<close> returns \<open>SUCCESS\<close> exactly when
  the FIFO is open and \<open>read\<close> returned one whole record, and \<open>FAILURE\<close> in every other
  case. When the non-blocking \<open>read\<close> has no data (\<open>EAGAIN\<close> or \<open>EWOULDBLOCK\<close>) it
  returns \<open>FAILURE\<close> and logs nothing; on another error of \<open>read\<close> it returns
  \<open>FAILURE\<close> and logs that the read failed; on a partial record it returns \<open>FAILURE\<close>
  and logs the number of bytes. The three cases differ in the error log only.
\<close>

theorem receive_ipc_message_status:
  "(fst (receive_ipc_message e w) = SUCCESS \<or> fst (receive_ipc_message e w) = FAILURE) \<and>
   (fst (receive_ipc_message e w) = SUCCESS \<longleftrightarrow>
      fifo_fd w \<noteq> - 1 \<and> fst (e_fifo_read e) = sizeof_IPCMessage) \<and>
   (fifo_fd w \<noteq> - 1 \<and> fst (e_fifo_read e) = - 1 \<and>
    (fst (snd (e_fifo_read e)) = EAGAIN \<or> fst (snd (e_fifo_read e)) = EWOULDBLOCK) \<longrightarrow>
      receive_ipc_message e w = (FAILURE, None, w)) \<and>
   (fifo_fd w \<noteq> - 1 \<and> fst (e_fifo_read e) = - 1 \<and>
    fst (snd (e_fifo_read e)) \<noteq> EAGAIN \<and> fst (snd (e_fifo_read e)) \<noteq> EWOULDBLOCK \<longrightarrow>
      receive_ipc_message e w =
        (FAILURE, None, log_error w ''Failed to read from FIFO: %s'' [Strerror])) \<and>
   (fifo_fd w \<noteq> - 1 \<and> fst (e_fifo_read e) \<noteq> - 1 \<and>
    fst (e_fifo_read e) \<noteq> sizeof_IPCMessage \<longrightarrow>
      receive_ipc_message e w =
        (FAILURE, None,
         log_error w ''Partial read from FIFO: %ld bytes'' [I (fst (e_fifo_read e))]))"
  by (cases "e_fifo_read e")
     (auto simp: receive_ipc_message_def sizeof_IPCMessage_def)

text \<open>The theorem at four answers of \<open>read\<close>: no data, the error \<open>EIO\<close>, a
  partial record of 100 bytes, and a whole record of 2060 bytes.\<close>

theorem receive_ipc_message_status_witness:
  "receive_ipc_message calm_env started_world = (FAILURE, None, started_world) \<and>
   receive_ipc_message (calm_env\<lparr>e_fifo_read := (- 1, EIO, empty_message)\<rparr>) started_world =
     (FAILURE, None, log_error started_world ''Failed to read from FIFO: %s'' [Strerror]) \<and>
   receive_ipc_message (calm_env\<lparr>e_fifo_read := (100, 0, empty_message)\<rparr>) started_world =
     (FAILURE, None, log_error started_world ''Partial read from FIFO: %ld bytes'' [I 100]) \<and>
   fst (receive_ipc_message (calm_env\<lparr>e_fifo_read := (2060, 0, empty_message)\<rparr>) started_world) = SUCCESS"
proof (intro conjI)
  have "fifo_fd started_world \<noteq> - 1 \<and> fst (e_fifo_read calm_env) = - 1 \<and>
    (fst (snd (e_fifo_read calm_env)) = EAGAIN \<or> fst (snd (e_fifo_read calm_env)) = EWOULDBLOCK)"
    by (simp add: calm_env_def started_world_def)
  with receive_ipc_message_status [of calm_env started_world]
  show "receive_ipc_message calm_env started_world = (FAILURE, None, started_world)"
    by blast
next
  let ?e = "calm_env\<lparr>e_fifo_read := (- 1, EIO, empty_message)\<rparr>"
  have "fifo_fd started_world \<noteq> - 1 \<and> fst (e_fifo_read ?e) = - 1 \<and>
    fst (snd (e_fifo_read ?e)) \<noteq> EAGAIN \<and> fst (snd (e_fifo_read ?e)) \<noteq> EWOULDBLOCK"
    by (simp add: started_world_def EAGAIN_def EWOULDBLOCK_def EIO_def)
  with receive_ipc_message_status [of ?e started_world]
  show "receive_ipc_message ?e started_world =
     (FAILURE, None, log_error started_world ''Failed to read from FIFO: %s'' [Strerror])"
    by blast
next
  let ?e = "calm_env\<lparr>e_fifo_read := (100, 0, empty_message)\<rparr>"
  have "fifo_fd started_world \<noteq> - 1 \<and> fst (e_fifo_read ?e) \<noteq> - 1 \<and>
    fst (e_fifo_read ?e) \<noteq> sizeof_IPCMessage"
    by (simp add: started_world_def sizeof_IPCMessage_def)
  with receive_ipc_message_status [of ?e started_world]
  have "receive_ipc_message ?e started_world =
     (FAILURE, None, log_error started_world ''Partial read from FIFO: %ld bytes'' [I (fst (e_fifo_read ?e))])"
    by blast
  then show "receive_ipc_message ?e started_world =
     (FAILURE, None, log_error started_world ''Partial read from FIFO: %ld bytes'' [I 100])"
    by simp
next
  let ?e = "calm_env\<lparr>e_fifo_read := (2060, 0, empty_message)\<rparr>"
  have "fifo_fd started_world \<noteq> - 1 \<and> fst (e_fifo_read ?e) = sizeof_IPCMessage"
    by (simp add: started_world_def sizeof_IPCMessage_def)
  with receive_ipc_message_status [of ?e started_world]
  show "fst (receive_ipc_message ?e started_world) = SUCCESS"
    by blast
qed

text \<open>Claim C3 as the specification words it fails: with no data, with a read error and
  with a partial record the function returns the same status and leaves the same buffer,
  so its result does not tell "no message" from an error, nor a framing error from
  either.\<close>

theorem receive_ipc_message_counterexample:
  "fst (receive_ipc_message calm_env started_world) = FAILURE \<and>
   fst (receive_ipc_message (calm_env\<lparr>e_fifo_read := (- 1, EIO, empty_message)\<rparr>)
          started_world) = FAILURE \<and>
   fst (receive_ipc_message (calm_env\<lparr>e_fifo_read := (100, 0, empty_message)\<rparr>)
          started_world) = FAILURE \<and>
   fst (snd (receive_ipc_message calm_env started_world)) =
     fst (snd (receive_ipc_message (calm_env\<lparr>e_fifo_read := (- 1, EIO, empty_message)\<rparr>)
                 started_world)) \<and>
   fst (snd (receive_ipc_message calm_env started_world)) =
     fst (snd (receive_ipc_message (calm_env\<lparr>e_fifo_read := (100, 0, empty_message)\<rparr>)
                 started_world))"
  by (simp add: receive_ipc_message_def calm_env_def started_world_def EAGAIN_def
      EWOULDBLOCK_def EIO_def sizeof_IPCMessage_def)

section \<open>The result of a backup\<close>

lemma backup_loop_counts:
  "\<exists>w'. backup_loop e (backup_path_of e) entries sc fc w =
          (sc + int (length (backup_copied e w0 entries)),
           fc + int (length (regular_entries entries)), w') \<and>
        copies (fs_trace w') =
          copies (fs_trace w) @
          map (\<lambda>entry. (dashboard_path entry, backup_file_path e entry)) (backup_copied e w0 entries) \<and>
        operation_log w' = operation_log w"
proof (induction entries arbitrary: sc fc w)
  case Nil
  show ?case by (simp add: backup_copied_def regular_entries_def)
next
  case (Cons entry rest)
  show ?case
  proof (cases "d_is_dir entry")
    case True
    with Cons.IH [of sc fc w] show ?thesis
      by (simp add: backup_copied_def regular_entries_def)
  next
    case False
    let ?s = "dashboard_path entry" and ?d = "backup_file_path e entry"
    obtain rc w1 where c: "copy_file e w ?s ?d = (rc, w1)" by (cases "copy_file e w ?s ?d")
    have rc0: "fst (copy_file e w0 ?s ?d) = rc"
      using copy_file_status_independent [of e w0 ?s ?d w] c by simp
    have tr: "copies (fs_trace w1) = copies (fs_trace w) @ (if rc = SUCCESS then [(?s, ?d)] else [])"
      using copy_file_copies [of e w ?s ?d] c by simp
    have ol: "operation_log w1 = operation_log w"
      using copy_file_operation_log [of e w ?s ?d] c by simp
    show ?thesis
    proof (cases "rc = SUCCESS")
      case True
      from Cons.IH [of "sc + 1" "fc + 1" w1] obtain w' where
        "backup_loop e (backup_path_of e) rest (sc + 1) (fc + 1) w1 =
          (sc + 1 + int (length (backup_copied e w0 rest)),
           fc + 1 + int (length (regular_entries rest)), w')"
        "copies (fs_trace w') =
          copies (fs_trace w1) @
          map (\<lambda>entry. (dashboard_path entry, backup_file_path e entry)) (backup_copied e w0 rest)"
        "operation_log w' = operation_log w1"
        by blast
      with False True c rc0 tr ol show ?thesis
        by (simp add: backup_copied_def regular_entries_def dashboard_path_def backup_file_path_def)
    next
      case nok: False
      let ?w2 = "log_error w1 ''Failed to backup file: %s'' [S (d_name entry)]"
      from Cons.IH [of sc "fc + 1" ?w2] obtain w' where
        "backup_loop e (backup_path_of e) rest sc (fc + 1) ?w2 =
          (sc + int (length (backup_copied e w0 rest)),
           fc + 1 + int (length (regular_entries rest)), w')"
        "copies (fs_trace w') =
          copies (fs_trace ?w2) @
          map (\<lambda>entry. (dashboard_path entry, backup_file_path e entry)) (backup_copied e w0 rest)"
        "operation_log w' = operation_log ?w2"
        by blast
      with False nok c rc0 tr ol show ?thesis
        by (simp add: backup_copied_def regular_entries_def dashboard_path_def backup_file_path_def)
    qed
  qed
qed

lemma backup_copied_le: "length (backup_copied e w entries) \<le> length (regular_entries entries)"
  by (simp add: backup_copied_def)


lemma backup_dashboard_opened:
  assumes mk: "e_mkdir e (backup_path_of e)" and od: "e_opendir e DASHBOARD_DIR = Some entries"
  shows "\<exists>wl. copies (fs_trace wl) =
            copies (fs_trace w) @
            map (\<lambda>entry. (dashboard_path entry, backup_file_path e entry)) (backup_copied e w entries) \<and>
          backup_dashboard e w =
           (if length (backup_copied e w entries) = length (regular_entries entries) then
              (SUCCESS, log_operation wl ''Backup completed successfully: %d files''
                          [I (int (length (backup_copied e w entries)))])
            else
              (if 0 < length (backup_copied e w entries) then SUCCESS else FAILURE,
               log_error wl ''Backup partially completed: %d/%d files''
                 [I (int (length (backup_copied e w entries))),
                  I (int (length (regular_entries entries)))]))"
proof -
  let ?w1 = "(log_operation w ''Starting dashboard backup'' [])
               \<lparr>fs_trace := fs_trace (log_operation w ''Starting dashboard backup'' []) @
                              [Made_dir (backup_path_of e)]\<rparr>"
  from backup_loop_counts [of e entries 0 0 ?w1 w] obtain wl where
    l: "backup_loop e (backup_path_of e) entries 0 0 ?w1 =
          (int (length (backup_copied e w entries)), int (length (regular_entries entries)), wl)"
    and c: "copies (fs_trace wl) =
          copies (fs_trace ?w1) @
          map (\<lambda>entry. (dashboard_path entry, backup_file_path e entry)) (backup_copied e w entries)"
    by auto
  have "copies (fs_trace ?w1) = copies (fs_trace w)"
    by (simp add: copies_append)
  with c have c': "copies (fs_trace wl) =
          copies (fs_trace w) @
          map (\<lambda>entry. (dashboard_path entry, backup_file_path e entry)) (backup_copied e w entries)"
    by simp
  have "backup_dashboard e w =
           (if length (backup_copied e w entries) = length (regular_entries entries) then
              (SUCCESS, log_operation wl ''Backup completed successfully: %d files''
                          [I (int (length (backup_copied e w entries)))])
            else
              (if 0 < length (backup_copied e w entries) then SUCCESS else FAILURE,
               log_error wl ''Backup partially completed: %d/%d files''
                 [I (int (length (backup_copied e w entries))),
                  I (int (length (regular_entries entries)))]))"
    using mk od l by (simp add: backup_dashboard_def Let_def)
  with c' show ?thesis by blast
qed

lemma backup_dashboard_opened_status:
  assumes mk: "e_mkdir e (backup_path_of e)" and od: "e_opendir e DASHBOARD_DIR = Some entries"
  shows "fst (backup_dashboard e w) =
           (if length (backup_copied e w entries) = length (regular_entries entries) \<or>
               0 < length (backup_copied e w entries)
            then SUCCESS else FAILURE)"
proof -
  from backup_dashboard_opened [OF mk od, of w] obtain wl where
    r: "backup_dashboard e w =
           (if length (backup_copied e w entries) = length (regular_entries entries) then
              (SUCCESS, log_operation wl ''Backup completed successfully: %d files''
                          [I (int (length (backup_copied e w entries)))])
            else
              (if 0 < length (backup_copied e w entries) then SUCCESS else FAILURE,
               log_error wl ''Backup partially completed: %d/%d files''
                 [I (int (length (backup_copied e w entries))),
                  I (int (length (regular_entries entries)))]))"
    by blast
  show ?thesis by (simp add: r)
qed

lemma backup_dashboard_not_opened:
  assumes "e_mkdir e (backup_path_of e)" and "e_opendir e DASHBOARD_DIR = None"
  shows "fst (backup_dashboard e w) = FAILURE"
    and "copies (fs_trace (snd (backup_dashboard e w))) = copies (fs_trace w)"
  using assms by (simp_all add: backup_dashboard_def Let_def copies_append)

lemma backup_dashboard_no_directory:
  assumes "\<not> e_mkdir e (backup_path_of e)"
  shows "fst (backup_dashboard e w) = FAILURE"
    and "copies (fs_trace (snd (backup_dashboard e w))) = copies (fs_trace w)"
  using assms by (simp_all add: backup_dashboard_def Let_def)

text \<open>
  Claim C2. When the backup directory is made and the dashboard directory opens,
  \<open>backup_dashboard\<close> copies exactly the regular files whose copy succeeds, all of them
  being attempted. It returns \<open>SUCCESS\<close> and logs the completed backup with its count
  when all of them were copied; it returns \<open>SUCCESS\<close> and logs the partial count when
  some but not all were copied. It returns \<open>SUCCESS\<close> or \<open>FAILURE\<close>, and \<open>FAILURE\<close>
  only when the backup directory could not be made or no file was copied.
\<close>

theorem backup_dashboard_result:
  "(e_mkdir e (backup_path_of e) \<and> e_opendir e DASHBOARD_DIR = Some entries \<longrightarrow>
      copies (fs_trace (snd (backup_dashboard e w))) =
        copies (fs_trace w) @
        map (\<lambda>entry. (dashboard_path entry, backup_file_path e entry))
          (backup_copied e w entries) \<and>
      (length (backup_copied e w entries) = length (regular_entries entries) \<longrightarrow>
         fst (backup_dashboard e w) = SUCCESS \<and>
         last (operation_log (snd (backup_dashboard e w))) =
           (''Backup completed successfully: %d files'',
            [I (int (length (regular_entries entries)))])) \<and>
      (0 < length (backup_copied e w entries) \<and>
       length (backup_copied e w entries) < length (regular_entries entries) \<longrightarrow>
         fst (backup_dashboard e w) = SUCCESS \<and>
         last (error_log (snd (backup_dashboard e w))) =
           (''Backup partially completed: %d/%d files'',
            [I (int (length (backup_copied e w entries))),
             I (int (length (regular_entries entries)))]))) \<and>
   (fst (backup_dashboard e w) = SUCCESS \<or> fst (backup_dashboard e w) = FAILURE) \<and>
   (fst (backup_dashboard e w) = FAILURE \<longrightarrow>
      \<not> e_mkdir e (backup_path_of e) \<or>
      copies (fs_trace (snd (backup_dashboard e w))) = copies (fs_trace w))"
proof (intro conjI impI)
  assume a: "e_mkdir e (backup_path_of e) \<and> e_opendir e DASHBOARD_DIR = Some entries"
  then obtain wl where
    c: "copies (fs_trace wl) =
            copies (fs_trace w) @
            map (\<lambda>entry. (dashboard_path entry, backup_file_path e entry)) (backup_copied e w entries)"
    and r: "backup_dashboard e w =
           (if length (backup_copied e w entries) = length (regular_entries entries) then
              (SUCCESS, log_operation wl ''Backup completed successfully: %d files''
                          [I (int (length (backup_copied e w entries)))])
            else
              (if 0 < length (backup_copied e w entries) then SUCCESS else FAILURE,
               log_error wl ''Backup partially completed: %d/%d files''
                 [I (int (length (backup_copied e w entries))),
                  I (int (length (regular_entries entries)))]))"
    using backup_dashboard_opened [of e entries w] by blast
  from c r show "copies (fs_trace (snd (backup_dashboard e w))) =
        copies (fs_trace w) @
        map (\<lambda>entry. (dashboard_path entry, backup_file_path e entry))
          (backup_copied e w entries)"
    by simp
  {
    assume "length (backup_copied e w entries) = length (regular_entries entries)"
    with r show "fst (backup_dashboard e w) = SUCCESS"
      and "last (operation_log (snd (backup_dashboard e w))) =
           (''Backup completed successfully: %d files'',
            [I (int (length (regular_entries entries)))])"
      by simp_all
  }
  {
    assume "0 < length (backup_copied e w entries) \<and>
       length (backup_copied e w entries) < length (regular_entries entries)"
    with r show "fst (backup_dashboard e w) = SUCCESS"
      and "last (error_log (snd (backup_dashboard e w))) =
           (''Backup partially completed: %d/%d files'',
            [I (int (length (backup_copied e w entries))),
             I (int (length (regular_entries entries)))])"
      by simp_all
  }
next
  show "fst (backup_dashboard e w) = SUCCESS \<or> fst (backup_dashboard e w) = FAILURE"
  proof (cases "e_mkdir e (backup_path_of e)")
    case False
    then show ?thesis by (simp add: backup_dashboard_no_directory)
  next
    case True
    show ?thesis
    proof (cases "e_opendir e DASHBOARD_DIR")
      case None
      with True show ?thesis by (simp add: backup_dashboard_not_opened)
    next
      case (Some es)
      from backup_dashboard_opened_status [OF True Some, of w] show ?thesis
        by (simp split: if_splits)
    qed
  qed
next
  assume f: "fst (backup_dashboard e w) = FAILURE"
  show "\<not> e_mkdir e (backup_path_of e) \<or>
      copies (fs_trace (snd (backup_dashboard e w))) = copies (fs_trace w)"
  proof (cases "e_mkdir e (backup_path_of e)")
    case False
    then show ?thesis by simp
  next
    case True
    show ?thesis
    proof (cases "e_opendir e DASHBOARD_DIR")
      case None
      with True show ?thesis by (simp add: backup_dashboard_not_opened)
    next
      case (Some es)
      from backup_dashboard_opened [OF True Some, of w] obtain wl where
        c: "copies (fs_trace wl) =
            copies (fs_trace w) @
            map (\<lambda>entry. (dashboard_path entry, backup_file_path e entry)) (backup_copied e w es)"
        and r: "backup_dashboard e w =
           (if length (backup_copied e w es) = length (regular_entries es) then
              (SUCCESS, log_operation wl ''Backup completed successfully: %d files''
                          [I (int (length (backup_copied e w es)))])
            else
              (if 0 < length (backup_copied e w es) then SUCCESS else FAILURE,
               log_error wl ''Backup partially completed: %d/%d files''
                 [I (int (length (backup_copied e w es))),
                  I (int (length (regular_entries es)))]))"
        by blast
      from f have "backup_copied e w es = []"
        by (simp add: backup_dashboard_opened_status [OF True Some] split: if_splits)
      moreover have "fs_trace (snd (backup_dashboard e w)) = fs_trace wl"
        by (simp add: r)
      ultimately show ?thesis using c by simp
    qed
  qed
qed

text \<open>The theorem on a dashboard of two reports: with one of them unreadable, with
  both readable, and with none readable (where the backup fails).\<close>

theorem backup_dashboard_result_witness:
  "fst (backup_dashboard
          (unreadable_env two_reports
             [''/var/report_system/dashboard/report_Warehouse_2024-01-01.xml''])
          started_world) = SUCCESS \<and>
   last (error_log (snd (backup_dashboard
          (unreadable_env two_reports
             [''/var/report_system/dashboard/report_Warehouse_2024-01-01.xml''])
          started_world))) =
     (''Backup partially completed: %d/%d files'', [I 1, I 2]) \<and>
   fst (backup_dashboard (unreadable_env two_reports []) started_world) = SUCCESS \<and>
   last (operation_log (snd (backup_dashboard (unreadable_env two_reports []) started_world))) =
     (''Backup completed successfully: %d files'', [I 2]) \<and>
   copies (fs_trace (snd (backup_dashboard
          (unreadable_env two_reports
             [''/var/report_system/dashboard/report_Sales_2024-01-01.xml'',
              ''/var/report_system/dashboard/report_Warehouse_2024-01-01.xml''])
          started_world))) = copies (fs_trace started_world)"
proof -
  let ?e1 = "unreadable_env two_reports
               [''/var/report_system/dashboard/report_Warehouse_2024-01-01.xml'']"
  let ?e2 = "unreadable_env two_reports []"
  let ?e3 = "unreadable_env two_reports
               [''/var/report_system/dashboard/report_Sales_2024-01-01.xml'',
                ''/var/report_system/dashboard/report_Warehouse_2024-01-01.xml'']"
  have n: "length (regular_entries two_reports) = 2"
    by (simp add: example_defs regular_entries_def)
  have h1: "e_mkdir ?e1 (backup_path_of ?e1) \<and> e_opendir ?e1 DASHBOARD_DIR = Some two_reports"
    by (simp add: unreadable_env_def calm_env_def)
  have k1: "length (backup_copied ?e1 started_world two_reports) = 1"
    by (simp add: example_defs path_defs backup_copied_def regular_entries_def copy_file_def Let_def)
  from n k1 have p1: "0 < length (backup_copied ?e1 started_world two_reports) \<and>
       length (backup_copied ?e1 started_world two_reports) < length (regular_entries two_reports)"
    by simp
  from backup_dashboard_result [of ?e1 two_reports started_world] h1 p1
  have "fst (backup_dashboard ?e1 started_world) = SUCCESS \<and>
        last (error_log (snd (backup_dashboard ?e1 started_world))) =
           (''Backup partially completed: %d/%d files'',
            [I (int (length (backup_copied ?e1 started_world two_reports))),
             I (int (length (regular_entries two_reports)))])"
    by blast
  with n k1 have c1: "fst (backup_dashboard ?e1 started_world) = SUCCESS \<and>
        last (error_log (snd (backup_dashboard ?e1 started_world))) =
           (''Backup partially completed: %d/%d files'', [I 1, I 2])"
    by simp
  have h2: "e_mkdir ?e2 (backup_path_of ?e2) \<and> e_opendir ?e2 DASHBOARD_DIR = Some two_reports"
    by (simp add: unreadable_env_def calm_env_def)
  have k2: "length (backup_copied ?e2 started_world two_reports) = 2"
    by (simp add: example_defs path_defs backup_copied_def regular_entries_def copy_file_def Let_def)
  from n k2 have p2: "length (backup_copied ?e2 started_world two_reports) =
       length (regular_entries two_reports)"
    by simp
  from backup_dashboard_result [of ?e2 two_reports started_world] h2 p2
  have "fst (backup_dashboard ?e2 started_world) = SUCCESS \<and>
        last (operation_log (snd (backup_dashboard ?e2 started_world))) =
           (''Backup completed successfully: %d files'',
            [I (int (length (regular_entries two_reports)))])"
    by blast
  with n have c2: "fst (backup_dashboard ?e2 started_world) = SUCCESS \<and>
        last (operation_log (snd (backup_dashboard ?e2 started_world))) =
           (''Backup completed successfully: %d files'', [I 2])"
    by simp
  have h3: "e_mkdir ?e3 (backup_path_of ?e3)"
    by (simp add: unreadable_env_def calm_env_def)
  have f3: "fst (backup_dashboard ?e3 started_world) = FAILURE"
    by (simp add: example_defs path_defs backup_dashboard_def copy_file_def Let_def)
  from backup_dashboard_result [of ?e3 two_reports started_world] h3 f3
  have c3: "copies (fs_trace (snd (backup_dashboard ?e3 started_world))) =
        copies (fs_trace started_world)"
    by blast
  from c1 c2 c3 show ?thesis by blast
qed

section \<open>The result of a transfer\<close>

lemma transfer_loop_skip:
  "\<not> is_report_entry entry \<Longrightarrow>
     transfer_loop e (entry # rest) result w = transfer_loop e rest result w"
  by (auto simp: is_report_entry_def)

lemma transfer_loop_step:
  assumes "is_report_entry entry"
  shows "\<exists>w2. transfer_loop e (entry # rest) result w =
           transfer_loop e rest
             (if fst (move_file e w (upload_path entry) (dashboard_path entry)) = SUCCESS
              then result else FAILURE) w2 \<and>
         fs_trace w2 = fs_trace w @ changes_of_move e w entry \<and>
         operation_log w2 = operation_log w @ [moving_line entry]"
proof -
  let ?w1 = "log_operation w ''Moving file: %s to %s'' [S (d_name entry), S DASHBOARD_DIR]"
  let ?s = "upload_path entry" and ?d = "dashboard_path entry"
  obtain rc w2 where m: "move_file e ?w1 ?s ?d = (rc, w2)" by (cases "move_file e ?w1 ?s ?d")
  have rc: "fst (move_file e w ?s ?d) = rc"
    using move_file_status_independent [of e w ?s ?d ?w1] m by simp
  have tr: "fs_trace w2 = fs_trace w @ changes_of_move e w entry"
    using move_file_changes [of e ?w1 entry w] m by simp
  have ol: "operation_log w2 = operation_log w @ [moving_line entry]"
    using move_file_operation_log [of e ?w1 ?s ?d] m by (simp add: moving_line_def)
  show ?thesis
  proof (cases "rc = SUCCESS")
    case False
    let ?w3 = "log_error w2 ''Failed to move file %s to dashboard'' [S (d_name entry)]"
    from assms m False rc
    have "transfer_loop e (entry # rest) result w =
           transfer_loop e rest
             (if fst (move_file e w ?s ?d) = SUCCESS then result else FAILURE) ?w3"
      by (auto simp: is_report_entry_def upload_path_def dashboard_path_def)
    moreover from tr have "fs_trace ?w3 = fs_trace w @ changes_of_move e w entry" by simp
    moreover from ol have "operation_log ?w3 = operation_log w @ [moving_line entry]" by simp
    ultimately show ?thesis by blast
  next
    case True
    obtain ro owner_buf w3 where g: "get_file_owner e w2 ?d MAX_USER_LENGTH = (ro, owner_buf, w3)"
      by (cases "get_file_owner e w2 ?d MAX_USER_LENGTH") auto
    let ?w4 = "if ro = SUCCESS
               then snd (log_file_change e w3 owner_buf (d_name entry) ''transfer'') else w3"
    from assms m True rc g
    have "transfer_loop e (entry # rest) result w =
           transfer_loop e rest
             (if fst (move_file e w ?s ?d) = SUCCESS then result else FAILURE) ?w4"
      by (auto simp: is_report_entry_def upload_path_def dashboard_path_def)
    moreover have "fs_trace w3 = fs_trace w2" "operation_log w3 = operation_log w2"
      using get_file_owner_fields(1,2) [of e w2 ?d MAX_USER_LENGTH] g by simp_all
    with tr ol have "fs_trace ?w4 = fs_trace w @ changes_of_move e w entry"
      and "operation_log ?w4 = operation_log w @ [moving_line entry]"
      by simp_all
    ultimately show ?thesis by blast
  qed
qed

lemma transfer_loop_result:
  "\<exists>w'. transfer_loop e entries result w =
          (if \<forall>entry \<in> set (filter is_report_entry entries).
                 fst (move_file e w0 (upload_path entry) (dashboard_path entry)) = SUCCESS
           then result else FAILURE, w') \<and>
        fs_trace w' =
          fs_trace w @ concat (map (changes_of_move e w0) (filter is_report_entry entries)) \<and>
        operation_log w' =
          operation_log w @ map moving_line (filter is_report_entry entries)"
proof (induction entries arbitrary: result w)
  case Nil
  show ?case by simp
next
  case (Cons entry rest)
  show ?case
  proof (cases "is_report_entry entry")
    case False
    with Cons.IH [of result w] show ?thesis
      by (simp add: transfer_loop_skip del: transfer_loop.simps)
  next
    case True
    let ?r = "if fst (move_file e w (upload_path entry) (dashboard_path entry)) = SUCCESS
              then result else FAILURE"
    from transfer_loop_step [OF True, of e rest result w] obtain w2 where
      st: "transfer_loop e (entry # rest) result w = transfer_loop e rest ?r w2"
      and tr: "fs_trace w2 = fs_trace w @ changes_of_move e w entry"
      and ol: "operation_log w2 = operation_log w @ [moving_line entry]"
      by blast
    have ind: "fst (move_file e w (upload_path entry) (dashboard_path entry)) =
               fst (move_file e w0 (upload_path entry) (dashboard_path entry))"
      by (rule move_file_status_independent)
    have ch: "changes_of_move e w entry = changes_of_move e w0 entry"
      by (rule changes_of_move_independent)
    from Cons.IH [of ?r w2] obtain w' where
      "transfer_loop e rest ?r w2 =
          (if \<forall>entry \<in> set (filter is_report_entry rest).
                 fst (move_file e w0 (upload_path entry) (dashboard_path entry)) = SUCCESS
           then ?r else FAILURE, w')"
      "fs_trace w' =
          fs_trace w2 @ concat (map (changes_of_move e w0) (filter is_report_entry rest))"
      "operation_log w' = operation_log w2 @ map moving_line (filter is_report_entry rest)"
      by blast
    with st tr ol ind ch True show ?thesis
      by (auto simp del: transfer_loop.simps)
  qed
qed

text \<open>
  Claim C4. When the upload directory opens, \<open>transfer_reports\<close> returns \<open>SUCCESS\<close>
  exactly when \<open>move_file\<close> succeeded for every entry that matches the report
  extension, and \<open>FAILURE\<close> otherwise. Whatever fails, the changes it has made to the
  files are those of the moves of all the matching entries, one after the other in the
  order of the directory: the loop goes on after a failed move, and nothing undoes a
  move that was made. The changes of one entry amount to a transfer of the file exactly
  when its move succeeded.
\<close>

theorem transfer_reports_partial_failure:
  "(e_opendir e UPLOAD_DIR = None \<longrightarrow> fst (transfer_reports e w) = FAILURE) \<and>
   (e_opendir e UPLOAD_DIR = Some entries \<longrightarrow>
      (fst (transfer_reports e w) = SUCCESS \<longleftrightarrow>
         (\<forall>entry \<in> set entries. is_report_entry entry \<longrightarrow>
            fst (move_file e w (upload_path entry) (dashboard_path entry)) = SUCCESS)) \<and>
      (fst (transfer_reports e w) = SUCCESS \<or> fst (transfer_reports e w) = FAILURE) \<and>
      fs_trace (snd (transfer_reports e w)) =
        fs_trace w @ concat (map (changes_of_move e w) (filter is_report_entry entries)) \<and>
      (\<forall>entry \<in> set entries. is_report_entry entry \<longrightarrow>
         (transferred (changes_of_move e w entry) (upload_path entry) (dashboard_path entry) \<longleftrightarrow>
          fst (move_file e w (upload_path entry) (dashboard_path entry)) = SUCCESS)))"
proof (intro conjI impI)
  assume "e_opendir e UPLOAD_DIR = None"
  then show "fst (transfer_reports e w) = FAILURE"
    by (simp add: transfer_reports_def)
next
  assume od: "e_opendir e UPLOAD_DIR = Some entries"
  let ?w1 = "log_operation w ''Starting report transfer from upload to dashboard'' []"
  let ?all = "\<forall>entry \<in> set (filter is_report_entry entries).
                 fst (move_file e w (upload_path entry) (dashboard_path entry)) = SUCCESS"
  from transfer_loop_result [of e entries SUCCESS ?w1 w] obtain w' where
    l: "transfer_loop e entries SUCCESS ?w1 = (if ?all then SUCCESS else FAILURE, w')"
    and tr: "fs_trace w' =
          fs_trace ?w1 @ concat (map (changes_of_move e w) (filter is_report_entry entries))"
    by blast
  from od l have r: "transfer_reports e w = (if ?all then SUCCESS else FAILURE, w')"
    by (simp add: transfer_reports_def)
  show "fst (transfer_reports e w) = SUCCESS \<longleftrightarrow>
         (\<forall>entry \<in> set entries. is_report_entry entry \<longrightarrow>
            fst (move_file e w (upload_path entry) (dashboard_path entry)) = SUCCESS)"
    by (auto simp: r)
  show "fst (transfer_reports e w) = SUCCESS \<or> fst (transfer_reports e w) = FAILURE"
    by (simp add: r)
  from tr show "fs_trace (snd (transfer_reports e w)) =
        fs_trace w @ concat (map (changes_of_move e w) (filter is_report_entry entries))"
    by (simp add: r)
  show "\<forall>entry \<in> set entries. is_report_entry entry \<longrightarrow>
         (transferred (changes_of_move e w entry) (upload_path entry) (dashboard_path entry) \<longleftrightarrow>
          fst (move_file e w (upload_path entry) (dashboard_path entry)) = SUCCESS)"
    unfolding changes_of_move_def by (simp only: move_file_transferred) simp
qed

text \<open>The theorem on an upload directory of two reports, where the first can be neither
  renamed nor copied: the call fails and the second report is moved all the same.\<close>

theorem transfer_reports_partial_failure_witness:
  "fst (transfer_reports
          (stuck_env two_reports [''/var/report_system/upload/report_Sales_2024-01-01.xml''])
          started_world) = FAILURE \<and>
   fs_trace (snd (transfer_reports
          (stuck_env two_reports [''/var/report_system/upload/report_Sales_2024-01-01.xml''])
          started_world)) =
     [Renamed ''/var/report_system/upload/report_Warehouse_2024-01-01.xml''
              ''/var/report_system/dashboard/report_Warehouse_2024-01-01.xml'']"
proof -
  let ?e = "stuck_env two_reports [''/var/report_system/upload/report_Sales_2024-01-01.xml'']"
  let ?sales = "regular_file ''report_Sales_2024-01-01.xml''"
  have od: "e_opendir ?e UPLOAD_DIR = Some two_reports"
    by (simp add: stuck_env_def unreadable_env_def calm_env_def)
  note t = transfer_reports_partial_failure [of ?e started_world two_reports]
  have sel: "filter is_report_entry two_reports =
          [?sales, regular_file ''report_Warehouse_2024-01-01.xml'']"
    by (simp add: two_reports_def dot_entries_def regular_file_def is_report_entry_def
        REPORT_EXTENSION_def)
  have c1: "changes_of_move ?e started_world ?sales = []"
    by (simp add: changes_of_move_def move_file_def copy_file_def example_defs
        path_defs Let_def)
  have c2: "changes_of_move ?e started_world (regular_file ''report_Warehouse_2024-01-01.xml'') =
      [Renamed ''/var/report_system/upload/report_Warehouse_2024-01-01.xml''
              ''/var/report_system/dashboard/report_Warehouse_2024-01-01.xml'']"
    by (simp add: changes_of_move_def move_file_def copy_file_def example_defs
        path_defs Let_def)
  have m1: "fst (move_file ?e started_world (upload_path ?sales) (dashboard_path ?sales)) \<noteq> SUCCESS"
    by (simp add: move_file_def copy_file_def example_defs path_defs Let_def)
  have in1: "?sales \<in> set two_reports \<and> is_report_entry ?sales"
    by (simp add: two_reports_def dot_entries_def regular_file_def is_report_entry_def
        REPORT_EXTENSION_def)
  from t od m1 in1 have "fst (transfer_reports ?e started_world) \<noteq> SUCCESS"
    by blast
  moreover from t od
  have "fst (transfer_reports ?e started_world) = SUCCESS \<or>
        fst (transfer_reports ?e started_world) = FAILURE"
    by blast
  ultimately have f: "fst (transfer_reports ?e started_world) = FAILURE" by blast
  from t od have "fs_trace (snd (transfer_reports ?e started_world)) =
        fs_trace started_world @
        concat (map (changes_of_move ?e started_world) (filter is_report_entry two_reports))"
    by blast
  with sel c1 c2 have "fs_trace (snd (transfer_reports ?e started_world)) =
     [Renamed ''/var/report_system/upload/report_Warehouse_2024-01-01.xml''
              ''/var/report_system/dashboard/report_Warehouse_2024-01-01.xml'']"
    by (simp add: started_world_def)
  with f show ?thesis by blast
qed

section \<open>What a scan and a comparison of inventories change\<close>

lemma logs_errors_only_refl [simp]: "logs_errors_only w w"
proof -
  have "w = w\<lparr>error_log := error_log w @ []\<rparr>" by simp
  then show ?thesis unfolding logs_errors_only_def by blast
qed

lemma logs_errors_only_trans:
  "logs_errors_only w w1 \<Longrightarrow> logs_errors_only w1 w2 \<Longrightarrow> logs_errors_only w w2"
proof -
  assume "logs_errors_only w w1" "logs_errors_only w1 w2"
  then obtain es1 es2 where "w1 = w\<lparr>error_log := error_log w @ es1\<rparr>"
    "w2 = w1\<lparr>error_log := error_log w1 @ es2\<rparr>"
    unfolding logs_errors_only_def by blast
  then have "w2 = w\<lparr>error_log := error_log w @ (es1 @ es2)\<rparr>" by simp
  then show ?thesis unfolding logs_errors_only_def by blast
qed

lemma logs_errors_only_log_error [simp]: "logs_errors_only w (log_error w f a)"
  unfolding logs_errors_only_def log_error_def by blast

lemma logs_errors_only_fields:
  assumes "logs_errors_only w w'"
  shows "previous_files w' = previous_files w" "change_events w' = change_events w"
    "change_log w' = change_log w" "last_scan_time w' = last_scan_time w"
    "operation_log w' = operation_log w" "mode_of w' = mode_of w"
    "force_transfer w' = force_transfer w" "force_backup w' = force_backup w"
    "fs_trace w' = fs_trace w" "daemon_exit w' = daemon_exit w" "fifo_fd w' = fifo_fd w"
  using assms unfolding logs_errors_only_def by auto

lemma get_file_owner_logs_errors_only:
  "logs_errors_only w (snd (snd (get_file_owner e w p n)))"
  by (simp add: get_file_owner_def split: option.splits)

lemma scan_loop_step:
  "\<exists>files' asz' w'. logs_errors_only w w' \<and>
     (scan_loop e dp (entry # rest) files asz w = scan_loop e dp rest files' asz' w' \<or>
      scan_loop e dp (entry # rest) files asz w = (FAILURE, None, w'))"
proof (cases "d_is_dir entry \<or> (case d_name entry of [] \<Rightarrow> False | c # cs \<Rightarrow> c = CHR ''.'')")
  case True
  then have "scan_loop e dp (entry # rest) files asz w = scan_loop e dp rest files asz w"
    by simp
  moreover have "logs_errors_only w w" by simp
  ultimately show ?thesis by blast
next
  case False
  let ?fp = "snprintf_path MAX_PATH_LENGTH dp (d_name entry)"
  show ?thesis
  proof (cases "e_stat e ?fp")
    case None
    let ?w1 = "log_error w ''Failed to get file stats for %s: %s'' [S (d_name entry), Strerror]"
    from False None
    have "scan_loop e dp (entry # rest) files asz w = scan_loop e dp rest files asz ?w1"
      by simp
    moreover have "logs_errors_only w ?w1" by simp
    ultimately show ?thesis by blast
  next
    case (Some st)
    show ?thesis
    proof (cases "int (length files) \<ge> asz \<and> \<not> e_realloc e (nat (asz * 2))")
      case True
      let ?w1 = "log_error w ''Memory reallocation failed for file list'' []"
      from False Some True
      have "scan_loop e dp (entry # rest) files asz w = (FAILURE, None, ?w1)"
        by (simp add: Let_def)
      moreover have "logs_errors_only w ?w1" by simp
      ultimately show ?thesis by blast
    next
      case nf: False
      obtain ro ob w2 where g: "get_file_owner e w ?fp MAX_USER_LENGTH = (ro, ob, w2)"
        by (cases "get_file_owner e w ?fp MAX_USER_LENGTH") auto
      have l1: "logs_errors_only w w2"
        using get_file_owner_logs_errors_only [of w e ?fp MAX_USER_LENGTH] g by simp
      from False Some nf g obtain files' asz' where
        "scan_loop e dp (entry # rest) files asz w = scan_loop e dp rest files' asz' w2"
        by (simp add: Let_def)
      with l1 show ?thesis by blast
    qed
  qed
qed

lemma scan_loop_logs_errors_only:
  "logs_errors_only w (snd (snd (scan_loop e dp entries files asz w)))"
proof (induction entries arbitrary: files asz w)
  case Nil
  show ?case by simp
next
  case (Cons entry rest)
  from scan_loop_step [of w e dp entry rest files asz] obtain files' asz' w' where
    l: "logs_errors_only w w'"
    and c: "scan_loop e dp (entry # rest) files asz w = scan_loop e dp rest files' asz' w' \<or>
      scan_loop e dp (entry # rest) files asz w = (FAILURE, None, w')"
    by blast
  from c show ?case
  proof
    assume "scan_loop e dp (entry # rest) files asz w = scan_loop e dp rest files' asz' w'"
    moreover have "logs_errors_only w' (snd (snd (scan_loop e dp rest files' asz' w')))"
      by (rule Cons.IH)
    ultimately show ?thesis using l logs_errors_only_trans by metis
  next
    assume "scan_loop e dp (entry # rest) files asz w = (FAILURE, None, w')"
    with l show ?thesis by simp
  qed
qed

lemma scan_directory_logs_errors_only:
  "logs_errors_only w (snd (snd (scan_directory e w dp)))"
  using scan_loop_logs_errors_only [of w e dp]
  by (simp add: scan_directory_def Let_def split: option.splits)

lemma scan_loop_status:
  "(fst (scan_loop e dp entries files asz w) = SUCCESS \<longleftrightarrow>
      (\<exists>fs. fst (snd (scan_loop e dp entries files asz w)) = Some fs)) \<and>
   (fst (scan_loop e dp entries files asz w) = SUCCESS \<or>
    fst (scan_loop e dp entries files asz w) = FAILURE)"
proof (induction entries arbitrary: files asz w)
  case Nil
  show ?case by simp
next
  case (Cons entry rest)
  from scan_loop_step [of w e dp entry rest files asz] obtain files' asz' w' where
    c: "scan_loop e dp (entry # rest) files asz w = scan_loop e dp rest files' asz' w' \<or>
      scan_loop e dp (entry # rest) files asz w = (FAILURE, None, w')"
    by blast
  from c show ?case
  proof
    assume "scan_loop e dp (entry # rest) files asz w = scan_loop e dp rest files' asz' w'"
    with Cons.IH [of files' asz' w'] show ?thesis by (auto simp del: scan_loop.simps)
  next
    assume "scan_loop e dp (entry # rest) files asz w = (FAILURE, None, w')"
    then show ?thesis by (simp del: scan_loop.simps)
  qed
qed

lemma scan_directory_status:
  "(fst (scan_directory e w dp) = SUCCESS \<longleftrightarrow>
      (\<exists>fs. fst (snd (scan_directory e w dp)) = Some fs)) \<and>
   (fst (scan_directory e w dp) = SUCCESS \<or> fst (scan_directory e w dp) = FAILURE)"
proof (cases "e_opendir e dp")
  case None
  then show ?thesis by (simp add: scan_directory_def)
next
  case (Some entries)
  show ?thesis
  proof (cases "e_malloc e 10")
    case False
    with Some show ?thesis by (simp add: scan_directory_def)
  next
    case True
    with Some have "scan_directory e w dp = scan_loop e dp entries [] 10 w"
      by (simp add: scan_directory_def)
    with scan_loop_status [of e dp entries "[]" 10 w] show ?thesis by auto
  qed
qed


subsection \<open>The names in an inventory\<close>

lemma scan_loop_step_names:
  "(\<exists>files' asz' w'.
      scan_loop e dp (entry # rest) files asz w = scan_loop e dp rest files' asz' w' \<and>
      map filename files' =
        map filename files @
        (if scanned e dp entry then [take (MAX_PATH_LENGTH - 1) (d_name entry)] else [])) \<or>
   fst (snd (scan_loop e dp (entry # rest) files asz w)) = None"
proof (cases "d_is_dir entry \<or> (case d_name entry of [] \<Rightarrow> False | c # cs \<Rightarrow> c = CHR ''.'')")
  case True
  then have "scan_loop e dp (entry # rest) files asz w = scan_loop e dp rest files asz w"
    by simp
  moreover from True have "\<not> scanned e dp entry" by (simp add: scanned_def)
  ultimately show ?thesis by auto
next
  case False
  let ?fp = "snprintf_path MAX_PATH_LENGTH dp (d_name entry)"
  show ?thesis
  proof (cases "e_stat e ?fp")
    case None
    let ?w1 = "log_error w ''Failed to get file stats for %s: %s'' [S (d_name entry), Strerror]"
    from False None
    have "scan_loop e dp (entry # rest) files asz w = scan_loop e dp rest files asz ?w1"
      by simp
    moreover from None have "\<not> scanned e dp entry" by (simp add: scanned_def)
    ultimately show ?thesis by auto
  next
    case (Some st)
    with False have sc: "scanned e dp entry" by (simp add: scanned_def)
    show ?thesis
    proof (cases "int (length files) \<ge> asz \<and> \<not> e_realloc e (nat (asz * 2))")
      case True
      from False Some True
      have "fst (snd (scan_loop e dp (entry # rest) files asz w)) = None"
        by (simp add: Let_def)
      then show ?thesis by blast
    next
      case nf: False
      obtain ro ob w2 where g: "get_file_owner e w ?fp MAX_USER_LENGTH = (ro, ob, w2)"
        by (cases "get_file_owner e w ?fp MAX_USER_LENGTH") auto
      from False Some nf g obtain rf asz' where
        "scan_loop e dp (entry # rest) files asz w = scan_loop e dp rest (files @ [rf]) asz' w2"
        and "filename rf = take (MAX_PATH_LENGTH - 1) (d_name entry)"
        by (simp add: Let_def)
      with sc have "scan_loop e dp (entry # rest) files asz w =
            scan_loop e dp rest (files @ [rf]) asz' w2 \<and>
          map filename (files @ [rf]) =
            map filename files @
            (if scanned e dp entry then [take (MAX_PATH_LENGTH - 1) (d_name entry)] else [])"
        by (simp del: scan_loop.simps)
      then show ?thesis by blast
    qed
  qed
qed

lemma scan_loop_filenames:
  "fst (snd (scan_loop e dp entries files asz w)) = Some fs \<Longrightarrow>
     map filename fs =
       map filename files @
       map (\<lambda>entry. take (MAX_PATH_LENGTH - 1) (d_name entry)) (filter (scanned e dp) entries)"
proof (induction entries arbitrary: files asz w)
  case Nil
  then show ?case by simp
next
  case (Cons entry rest)
  from scan_loop_step_names [of e dp entry rest files asz w] Cons.prems
  obtain files' asz' w' where
    s: "scan_loop e dp (entry # rest) files asz w = scan_loop e dp rest files' asz' w'"
    and n: "map filename files' =
        map filename files @
        (if scanned e dp entry then [take (MAX_PATH_LENGTH - 1) (d_name entry)] else [])"
    by auto
  from Cons.prems s have "fst (snd (scan_loop e dp rest files' asz' w')) = Some fs"
    by (simp del: scan_loop.simps)
  from Cons.IH [OF this] n show ?case by simp
qed

lemma scan_directory_filenames:
  assumes "fst (snd (scan_directory e w dp)) = Some fs"
    and "e_opendir e dp = Some entries"
  shows "map filename fs =
           map (\<lambda>entry. take (MAX_PATH_LENGTH - 1) (d_name entry)) (filter (scanned e dp) entries)"
proof (cases "e_malloc e 10")
  case False
  with assms show ?thesis by (simp add: scan_directory_def)
next
  case True
  with assms have "fst (snd (scan_loop e dp entries [] 10 w)) = Some fs"
    by (simp add: scan_directory_def)
  from scan_loop_filenames [OF this] show ?thesis by simp
qed

text \<open>The names of a directory are distinct and shorter than a path buffer, so no two
  files of an inventory have the same name.\<close>

lemma scan_directory_distinct:
  assumes "fst (snd (scan_directory e w dp)) = Some fs"
    and "e_opendir e dp = Some entries"
    and "distinct (map d_name entries)"
    and "\<forall>entry \<in> set entries. length (d_name entry) < MAX_PATH_LENGTH"
  shows "distinct (map filename fs)"
proof -
  have "map (\<lambda>entry. take (MAX_PATH_LENGTH - 1) (d_name entry)) (filter (scanned e dp) entries) =
        map d_name (filter (scanned e dp) entries)"
    using assms(4) by (intro map_cong) auto
  with scan_directory_filenames [OF assms(1,2)]
  have "map filename fs = map d_name (filter (scanned e dp) entries)" by simp
  with assms(3) show ?thesis by (simp add: distinct_map_filter)
qed

subsection \<open>The comparison of two inventories\<close>

lemma changes_logs_only_refl [simp]: "changes_logs_only w w"
  by (simp add: changes_logs_only_def)

lemma changes_logs_only_trans:
  assumes "changes_logs_only w w1" and "changes_logs_only w1 w2"
  shows "changes_logs_only w w2"
proof -
  from assms(1) have 1: "w1 = w\<lparr>error_log := error_log w1, change_events := change_events w1,
            change_log := change_log w1\<rparr>"
    by (simp add: changes_logs_only_def)
  from assms(2) have 2: "w2 = w1\<lparr>error_log := error_log w2, change_events := change_events w2,
            change_log := change_log w2\<rparr>"
    by (simp add: changes_logs_only_def)
  have "w2 = w\<lparr>error_log := error_log w2, change_events := change_events w2,
            change_log := change_log w2\<rparr>"
    by (subst 2, subst 1) simp
  then show ?thesis by (simp add: changes_logs_only_def)
qed

lemma logs_errors_only_changes_logs_only:
  "logs_errors_only w w' \<Longrightarrow> changes_logs_only w w'"
  unfolding logs_errors_only_def changes_logs_only_def by auto

lemma changes_logs_only_fields:
  assumes "changes_logs_only w w'"
  shows "previous_files w' = previous_files w" "last_scan_time w' = last_scan_time w"
    "operation_log w' = operation_log w" "mode_of w' = mode_of w"
    "force_transfer w' = force_transfer w" "force_backup w' = force_backup w"
    "fs_trace w' = fs_trace w" "daemon_exit w' = daemon_exit w" "fifo_fd w' = fifo_fd w"
proof -
  from assms have e: "w' = w\<lparr>error_log := error_log w', change_events := change_events w',
            change_log := change_log w'\<rparr>"
    by (simp add: changes_logs_only_def)
  show "previous_files w' = previous_files w" by (subst e) simp
  show "last_scan_time w' = last_scan_time w" by (subst e) simp
  show "operation_log w' = operation_log w" by (subst e) simp
  show "mode_of w' = mode_of w" by (subst e) simp
  show "force_transfer w' = force_transfer w" by (subst e) simp
  show "force_backup w' = force_backup w" by (subst e) simp
  show "fs_trace w' = fs_trace w" by (subst e) simp
  show "daemon_exit w' = daemon_exit w" by (subst e) simp
  show "fifo_fd w' = fifo_fd w" by (subst e) simp
qed

lemma log_file_change_logs_only:
  "changes_logs_only w (snd (log_file_change e w u f a))"
  by (simp add: log_file_change_def Let_def changes_logs_only_def log_error_def)

lemma log_file_change_event:
  "change_events (snd (log_file_change e w (owner f) (filename f) action)) =
     change_events w @ [change_event e f action]"
  by (simp add: change_event_def)

lemma inner_previous_found:
  "fst (inner_previous e c prev w) \<longleftrightarrow> find (\<lambda>p. filename p = filename c) prev \<noteq> None"
  by (induction prev) auto

lemma inner_previous_events:
  "change_events (snd (inner_previous e c prev w)) =
     change_events w @
     (case find (\<lambda>p. filename p = filename c) prev of
        None \<Rightarrow> []
      | Some p \<Rightarrow> if timestamp c > timestamp p then [change_event e c ''modify''] else [])"
  by (induction prev) (auto simp: change_event_def)

lemma inner_previous_logs_only:
  "changes_logs_only w (snd (inner_previous e c prev w))"
  by (induction prev) (auto simp: log_file_change_logs_only)

lemma new_or_modified_step:
  "\<exists>w1. new_or_modified e (c # cs) prev w = new_or_modified e cs prev w1 \<and>
        changes_logs_only w w1 \<and>
        change_events w1 = change_events w @ events_for_current e prev c"
proof -
  obtain found w0 where i: "inner_previous e c prev w = (found, w0)"
    by (cases "inner_previous e c prev w")
  have f: "found \<longleftrightarrow> find (\<lambda>p. filename p = filename c) prev \<noteq> None"
    using inner_previous_found [of e c prev w] i by simp
  have ev: "change_events w0 =
     change_events w @
     (case find (\<lambda>p. filename p = filename c) prev of
        None \<Rightarrow> []
      | Some p \<Rightarrow> if timestamp c > timestamp p then [change_event e c ''modify''] else [])"
    using inner_previous_events [of e c prev w] i by simp
  have lo: "changes_logs_only w w0"
    using inner_previous_logs_only [of w e c prev] i by simp
  let ?w1 = "if \<not> found then snd (log_file_change e w0 (owner c) (filename c) ''create'') else w0"
  from i have "new_or_modified e (c # cs) prev w = new_or_modified e cs prev ?w1"
    by simp
  moreover have "changes_logs_only w0 ?w1"
    by (simp add: log_file_change_logs_only)
  with lo have "changes_logs_only w ?w1" by (rule changes_logs_only_trans)
  moreover from f ev have "change_events ?w1 = change_events w @ events_for_current e prev c"
    by (auto simp: events_for_current_def change_event_def)
  ultimately show ?thesis by blast
qed

lemma new_or_modified_result:
  "changes_logs_only w (new_or_modified e cur prev w) \<and>
   change_events (new_or_modified e cur prev w) =
     change_events w @ concat (map (events_for_current e prev) cur)"
proof (induction cur arbitrary: w)
  case Nil
  show ?case by simp
next
  case (Cons c cs)
  from new_or_modified_step [of e c cs prev w] obtain w1 where
    s: "new_or_modified e (c # cs) prev w = new_or_modified e cs prev w1"
    and l: "changes_logs_only w w1"
    and ev: "change_events w1 = change_events w @ events_for_current e prev c"
    by blast
  from Cons.IH [of w1] have "changes_logs_only w1 (new_or_modified e cs prev w1)"
    and e2: "change_events (new_or_modified e cs prev w1) =
     change_events w1 @ concat (map (events_for_current e prev) cs)"
    by simp_all
  with l have "changes_logs_only w (new_or_modified e cs prev w1)"
    using changes_logs_only_trans by blast
  with s ev e2 show ?case by (simp del: new_or_modified.simps)
qed

lemma inner_current_found:
  "inner_current p cur \<longleftrightarrow> filename p \<in> set (map filename cur)"
  by (induction cur) auto

lemma deleted_loop_result:
  "changes_logs_only w (deleted_loop e prev cur w) \<and>
   change_events (deleted_loop e prev cur w) =
     change_events w @ concat (map (events_for_previous e cur) prev)"
proof (induction prev arbitrary: w)
  case Nil
  show ?case by simp
next
  case (Cons p ps)
  let ?w1 = "if \<not> inner_current p cur
             then snd (log_file_change e w (owner p) (filename p) ''delete'') else w"
  have s: "deleted_loop e (p # ps) cur w = deleted_loop e ps cur ?w1"
    by (simp add: Let_def)
  have l: "changes_logs_only w ?w1"
    by (simp add: log_file_change_logs_only)
  have ev: "change_events ?w1 = change_events w @ events_for_previous e cur p"
    by (simp add: events_for_previous_def inner_current_found change_event_def)
  from Cons.IH [of ?w1] have "changes_logs_only ?w1 (deleted_loop e ps cur ?w1)"
    and e2: "change_events (deleted_loop e ps cur ?w1) =
     change_events ?w1 @ concat (map (events_for_previous e cur) ps)"
    by simp_all
  with l have "changes_logs_only w (deleted_loop e ps cur ?w1)"
    using changes_logs_only_trans by blast
  with s ev e2 show ?case by (simp del: deleted_loop.simps)
qed

section \<open>Detecting changes of the upload directory\<close>

lemma monitor_scan_failed:
  assumes "fst (scan_directory e w UPLOAD_DIR) \<noteq> SUCCESS"
  shows "monitor_directory_changes e w = (FAILURE, snd (snd (scan_directory e w UPLOAD_DIR)))"
  using assms by (simp add: monitor_directory_changes_def case_prod_beta)

lemma monitor_first_scan:
  assumes "fst (scan_directory e w UPLOAD_DIR) = SUCCESS" and "previous_files w = None"
  shows "monitor_directory_changes e w =
           (SUCCESS, (snd (snd (scan_directory e w UPLOAD_DIR)))
                       \<lparr>previous_files := fst (snd (scan_directory e w UPLOAD_DIR)),
                        last_scan_time := e_time e\<rparr>)"
proof -
  have "previous_files (snd (snd (scan_directory e w UPLOAD_DIR))) = previous_files w"
    using scan_directory_logs_errors_only [of w e UPLOAD_DIR] by (rule logs_errors_only_fields)
  with assms show ?thesis
    by (simp add: monitor_directory_changes_def case_prod_beta)
qed

lemma monitor_compared:
  assumes "scan_directory e w UPLOAD_DIR = (SUCCESS, Some cur, w1)"
    and "previous_files w = Some prev"
  shows "monitor_directory_changes e w =
           (SUCCESS, (deleted_loop e prev cur (new_or_modified e cur prev w1))
                       \<lparr>previous_files := Some cur, last_scan_time := e_time e\<rparr>)"
proof -
  have "previous_files (snd (snd (scan_directory e w UPLOAD_DIR))) = previous_files w"
    using scan_directory_logs_errors_only [of w e UPLOAD_DIR] by (rule logs_errors_only_fields)
  with assms show ?thesis
    by (simp add: monitor_directory_changes_def)
qed

lemma monitor_compared_events:
  assumes "scan_directory e w UPLOAD_DIR = (SUCCESS, Some cur, w1)"
    and "previous_files w = Some prev"
  shows "change_events (snd (monitor_directory_changes e w)) =
           change_events w @ concat (map (events_for_current e prev) cur) @
           concat (map (events_for_previous e cur) prev)"
proof -
  have "change_events (snd (snd (scan_directory e w UPLOAD_DIR))) = change_events w"
    using scan_directory_logs_errors_only [of w e UPLOAD_DIR] by (rule logs_errors_only_fields)
  with assms(1) have "change_events w1 = change_events w" by simp
  with monitor_compared [OF assms] new_or_modified_result [of w1 e cur prev]
    deleted_loop_result [of "new_or_modified e cur prev w1" e prev cur]
  show ?thesis by simp
qed

subsection \<open>The events about one file\<close>

lemma events_about_append [simp]:
  "events_about n (a @ b) = events_about n a @ events_about n b"
  by (simp add: events_about_def)

lemma events_about_concat:
  assumes "\<And>x ev. ev \<in> set (F x) \<Longrightarrow> cl_file ev = filename x"
  shows "events_about n (concat (map F xs)) =
           concat (map F (filter (\<lambda>x. filename x = n) xs))"
proof (induction xs)
  case Nil
  show ?case by (simp add: events_about_def)
next
  case (Cons x xs)
  have "events_about n (F x) = (if filename x = n then F x else [])"
    using assms [of _ x] by (auto simp: events_about_def filter_empty_conv filter_id_conv)
  with Cons.IH show ?case by simp
qed

lemma events_for_current_file:
  "ev \<in> set (events_for_current e prev c) \<Longrightarrow> cl_file ev = filename c"
  by (auto simp: events_for_current_def change_event_def split: option.splits if_splits)

lemma events_for_previous_file:
  "ev \<in> set (events_for_previous e cur p) \<Longrightarrow> cl_file ev = filename p"
  by (auto simp: events_for_previous_def change_event_def split: if_splits)

lemma filter_filename_distinct:
  "distinct (map filename xs) \<Longrightarrow> x \<in> set xs \<Longrightarrow>
     filter (\<lambda>y. filename y = filename x) xs = [x]"
proof (induction xs)
  case Nil
  then show ?case by simp
next
  case (Cons y ys)
  show ?case
  proof (cases "x = y")
    case True
    from Cons.prems(1) have "filename y \<notin> filename ` set ys" by simp
    then have "\<forall>z \<in> set ys. filename z \<noteq> filename y" by (metis imageI)
    then have "filter (\<lambda>z. filename z = filename y) ys = []"
      by (simp add: filter_empty_conv)
    with True show ?thesis by simp
  next
    case False
    with Cons.prems have xin: "x \<in> set ys" and d: "distinct (map filename ys)" by auto
    from Cons.prems(1) have "filename y \<notin> filename ` set ys" by simp
    with xin have "filename y \<noteq> filename x" by (metis imageI)
    with Cons.IH [OF d xin] show ?thesis by simp
  qed
qed

lemma filter_filename_absent:
  "n \<notin> set (map filename xs) \<Longrightarrow> filter (\<lambda>y. filename y = n) xs = []"
  by (auto simp: filter_empty_conv)

lemma find_filename_distinct:
  "distinct (map filename xs) \<Longrightarrow> p \<in> set xs \<Longrightarrow>
     find (\<lambda>y. filename y = filename p) xs = Some p"
proof (induction xs)
  case Nil
  then show ?case by simp
next
  case (Cons y ys)
  show ?case
  proof (cases "p = y")
    case True
    then show ?thesis by simp
  next
    case False
    with Cons.prems have pin: "p \<in> set ys" and d: "distinct (map filename ys)" by auto
    from Cons.prems(1) have "filename y \<notin> filename ` set ys" by simp
    with pin have "filename y \<noteq> filename p" by (metis imageI)
    with Cons.IH [OF d pin] show ?thesis by simp
  qed
qed

lemma find_filename_absent:
  "n \<notin> set (map filename xs) \<Longrightarrow> find (\<lambda>y. filename y = n) xs = None"
  by (auto simp: find_None_iff)

lemma events_about_compared:
  "events_about n (concat (map (events_for_current e prev) cur) @
                   concat (map (events_for_previous e cur) prev)) =
     concat (map (events_for_current e prev) (filter (\<lambda>x. filename x = n) cur)) @
     concat (map (events_for_previous e cur) (filter (\<lambda>x. filename x = n) prev))"
  by (simp add: events_about_concat [of "events_for_current e prev", OF events_for_current_file]
      events_about_concat [of "events_for_previous e cur", OF events_for_previous_file])

lemma created_once:
  assumes "distinct (map filename cur)" and "c \<in> set cur"
    and "filename c \<notin> set (map filename prev)"
  shows "events_about (filename c)
           (concat (map (events_for_current e prev) cur) @
            concat (map (events_for_previous e cur) prev)) = [change_event e c ''create'']"
  unfolding events_about_compared
  using filter_filename_distinct [OF assms(1,2)] filter_filename_absent [OF assms(3)]
    find_filename_absent [OF assms(3)]
  by (simp add: events_for_current_def)

lemma modified_or_unchanged_once:
  assumes "distinct (map filename cur)" and "distinct (map filename prev)"
    and "c \<in> set cur" and "p \<in> set prev" and "filename p = filename c"
  shows "events_about (filename c)
           (concat (map (events_for_current e prev) cur) @
            concat (map (events_for_previous e cur) prev)) =
         (if timestamp c > timestamp p then [change_event e c ''modify''] else [])"
proof -
  from assms(3) have "filename c \<in> set (map filename cur)" by simp
  with assms(5) have incur: "filename p \<in> set (map filename cur)" by simp
  show ?thesis
    unfolding events_about_compared
    using filter_filename_distinct [OF assms(1,3)] filter_filename_distinct [OF assms(2,4)]
      find_filename_distinct [OF assms(2,4)] assms(5) incur
    by (simp add: events_for_current_def events_for_previous_def)
qed

lemma deleted_once:
  assumes "distinct (map filename prev)" and "p \<in> set prev"
    and "filename p \<notin> set (map filename cur)"
  shows "events_about (filename p)
           (concat (map (events_for_current e prev) cur) @
            concat (map (events_for_previous e cur) prev)) = [change_event e p ''delete'']"
  unfolding events_about_compared
  using filter_filename_distinct [OF assms(1,2)] filter_filename_absent [OF assms(3)] assms(3)
  by (simp add: events_for_previous_def)


lemma events_for_current_actions:
  "ev \<in> set (events_for_current e prev c) \<Longrightarrow>
     cl_action ev = ''create'' \<or> cl_action ev = ''modify''"
  by (auto simp: events_for_current_def change_event_def split: option.splits if_splits)

lemma events_for_previous_actions:
  "ev \<in> set (events_for_previous e cur p) \<Longrightarrow> cl_action ev = ''delete''"
  by (auto simp: events_for_previous_def change_event_def split: if_splits)

lemma scan_sales_touched:
  "scan_directory sales_touched_env w UPLOAD_DIR = (SUCCESS, Some current_three, w)"
  by (simp add: scan_directory_def sales_touched_env_def current_three_def example_defs
      path_defs get_file_owner_def extract_defs Let_def)

text \<open>
  Claim C5. On a call of \<open>monitor_directory_changes\<close> that finds a previous inventory
  and whose scan succeeds, the calls of \<open>log_file_change\<close> it makes are first those for
  the files of the current inventory, in its order, each a creation or a modification,
  and then those for the files of the previous inventory, in its order, each a
  deletion. When no two files of an inventory have the same name: a file that is in
  the current inventory and not in the previous one has exactly one event, its
  creation; a file that is in both has exactly one event, its modification, when its
  modification time is strictly newer, and none otherwise; a file that is in the
  previous inventory and not in the current one has exactly one event, its deletion.
\<close>

theorem monitor_change_events:
  assumes "previous_files w = Some prev"
    and "scan_directory e w UPLOAD_DIR = (SUCCESS, Some cur, w1)"
  shows "\<exists>created_modified deleted.
      change_events (snd (monitor_directory_changes e w)) =
        change_events w @ created_modified @ deleted \<and>
      created_modified = concat (map (events_for_current e prev) cur) \<and>
      deleted = concat (map (events_for_previous e cur) prev) \<and>
      (\<forall>ev \<in> set created_modified. cl_action ev = ''create'' \<or> cl_action ev = ''modify'') \<and>
      (\<forall>ev \<in> set deleted. cl_action ev = ''delete'') \<and>
      (distinct (map filename cur) \<and> distinct (map filename prev) \<longrightarrow>
         (\<forall>c \<in> set cur. filename c \<notin> set (map filename prev) \<longrightarrow>
            events_about (filename c) (created_modified @ deleted) =
              [change_event e c ''create'']) \<and>
         (\<forall>c \<in> set cur. \<forall>p \<in> set prev. filename p = filename c \<longrightarrow>
            events_about (filename c) (created_modified @ deleted) =
              (if timestamp c > timestamp p then [change_event e c ''modify''] else [])) \<and>
         (\<forall>p \<in> set prev. filename p \<notin> set (map filename cur) \<longrightarrow>
            events_about (filename p) (created_modified @ deleted) =
              [change_event e p ''delete'']))"
proof (intro exI conjI impI ballI)
  show "change_events (snd (monitor_directory_changes e w)) =
        change_events w @ concat (map (events_for_current e prev) cur) @
        concat (map (events_for_previous e cur) prev)"
    using assms(2,1) by (rule monitor_compared_events)
next
  show "concat (map (events_for_current e prev) cur) =
        concat (map (events_for_current e prev) cur)" ..
next
  show "concat (map (events_for_previous e cur) prev) =
        concat (map (events_for_previous e cur) prev)" ..
next
  fix ev assume "ev \<in> set (concat (map (events_for_current e prev) cur))"
  then show "cl_action ev = ''create'' \<or> cl_action ev = ''modify''"
    using events_for_current_actions by auto
next
  fix ev assume "ev \<in> set (concat (map (events_for_previous e cur) prev))"
  then show "cl_action ev = ''delete''"
    using events_for_previous_actions by auto
next
  fix c
  assume "distinct (map filename cur) \<and> distinct (map filename prev)" "c \<in> set cur"
    "filename c \<notin> set (map filename prev)"
  then show "events_about (filename c)
           (concat (map (events_for_current e prev) cur) @
            concat (map (events_for_previous e cur) prev)) = [change_event e c ''create'']"
    using created_once [of cur c prev e] by blast
next
  fix c p
  assume "distinct (map filename cur) \<and> distinct (map filename prev)" "c \<in> set cur"
    "p \<in> set prev" "filename p = filename c"
  then show "events_about (filename c)
           (concat (map (events_for_current e prev) cur) @
            concat (map (events_for_previous e cur) prev)) =
         (if timestamp c > timestamp p then [change_event e c ''modify''] else [])"
    using modified_or_unchanged_once [of cur prev c p e] by blast
next
  fix p
  assume "distinct (map filename cur) \<and> distinct (map filename prev)" "p \<in> set prev"
    "filename p \<notin> set (map filename cur)"
  then show "events_about (filename p)
           (concat (map (events_for_current e prev) cur) @
            concat (map (events_for_previous e cur) prev)) = [change_event e p ''delete'']"
    using deleted_once [of prev p cur e] by blast
qed

text \<open>The theorem on a previous inventory of three files and a scan in which one of
  them is newer, one is unchanged, one is gone and one is new.\<close>

theorem monitor_change_events_witness:
  "change_events (snd (monitor_directory_changes sales_touched_env watching_world)) =
     [\<lparr>cl_time = 43200, cl_user = Some ''root'', cl_file = ''report_Sales.xml'',
        cl_action = ''modify''\<rparr>,
      \<lparr>cl_time = 43200, cl_user = Some ''root'', cl_file = ''report_New.xml'',
        cl_action = ''create''\<rparr>,
      \<lparr>cl_time = 43200, cl_user = Some ''root'', cl_file = ''report_Old.xml'',
        cl_action = ''delete''\<rparr>] \<and>
   events_about ''report_Warehouse.xml''
     (change_events (snd (monitor_directory_changes sales_touched_env watching_world))) = []"
proof -
  let ?e = sales_touched_env and ?w = watching_world
  have p: "previous_files ?w = Some previous_three"
    by (simp add: watching_world_def)
  have s: "scan_directory ?e ?w UPLOAD_DIR = (SUCCESS, Some current_three, ?w)"
    by (rule scan_sales_touched)
  from monitor_change_events [OF p s] obtain cm del where
    ev: "change_events (snd (monitor_directory_changes ?e ?w)) = change_events ?w @ cm @ del"
    and cm: "cm = concat (map (events_for_current ?e previous_three) current_three)"
    and del: "del = concat (map (events_for_previous ?e current_three) previous_three)"
    and one: "distinct (map filename current_three) \<and> distinct (map filename previous_three) \<longrightarrow>
         (\<forall>c \<in> set current_three. \<forall>p \<in> set previous_three. filename p = filename c \<longrightarrow>
            events_about (filename c) (cm @ del) =
              (if timestamp c > timestamp p then [change_event ?e c ''modify''] else []))"
    by blast
  have w0: "change_events ?w = []"
    by (simp add: watching_world_def started_world_def)
  have cm': "cm = [\<lparr>cl_time = 43200, cl_user = Some ''root'', cl_file = ''report_Sales.xml'',
        cl_action = ''modify''\<rparr>,
      \<lparr>cl_time = 43200, cl_user = Some ''root'', cl_file = ''report_New.xml'',
        cl_action = ''create''\<rparr>]"
    unfolding cm
    by (simp add: events_for_current_def change_event_def current_three_def previous_three_def
        report_file_def sales_touched_env_def touched_env_def calm_env_def)
  have del': "del = [\<lparr>cl_time = 43200, cl_user = Some ''root'', cl_file = ''report_Old.xml'',
        cl_action = ''delete''\<rparr>]"
    unfolding del
    by (simp add: events_for_previous_def change_event_def current_three_def previous_three_def
        report_file_def sales_touched_env_def touched_env_def calm_env_def)
  from ev w0 cm' del' have a: "change_events (snd (monitor_directory_changes ?e ?w)) =
     [\<lparr>cl_time = 43200, cl_user = Some ''root'', cl_file = ''report_Sales.xml'',
        cl_action = ''modify''\<rparr>,
      \<lparr>cl_time = 43200, cl_user = Some ''root'', cl_file = ''report_New.xml'',
        cl_action = ''create''\<rparr>,
      \<lparr>cl_time = 43200, cl_user = Some ''root'', cl_file = ''report_Old.xml'',
        cl_action = ''delete''\<rparr>]"
    by simp
  let ?c = "report_file ''report_Warehouse.xml'' (Some ''Warehouse'') 100"
  have d: "distinct (map filename current_three) \<and> distinct (map filename previous_three)"
    by (simp add: current_three_def previous_three_def report_file_def)
  have m: "?c \<in> set current_three" "?c \<in> set previous_three"
    by (simp_all add: current_three_def previous_three_def)
  from one d m have "events_about (filename ?c) (cm @ del) =
              (if timestamp ?c > timestamp ?c then [change_event ?e ?c ''modify''] else [])"
    by blast
  then have "events_about ''report_Warehouse.xml'' (cm @ del) = []"
    by (simp add: report_file_def)
  with ev w0 have "events_about ''report_Warehouse.xml''
     (change_events (snd (monitor_directory_changes ?e ?w))) = []"
    by simp
  with a show ?thesis by blast
qed

text \<open>
  Claim C6. On a call of \<open>monitor_directory_changes\<close> that finds no previous inventory
  no event is emitted; when its scan succeeds it returns \<open>SUCCESS\<close> and the inventory of
  that scan is the stored previous inventory afterwards.
\<close>

theorem monitor_priming_run:
  "previous_files w = None \<longrightarrow>
     change_events (snd (monitor_directory_changes e w)) = change_events w \<and>
     change_log (snd (monitor_directory_changes e w)) = change_log w \<and>
     (fst (scan_directory e w UPLOAD_DIR) = SUCCESS \<longrightarrow>
        fst (monitor_directory_changes e w) = SUCCESS \<and>
        previous_files (snd (monitor_directory_changes e w)) =
          fst (snd (scan_directory e w UPLOAD_DIR)) \<and>
        (\<exists>inventory. previous_files (snd (monitor_directory_changes e w)) = Some inventory \<and>
           previous_file_count (snd (monitor_directory_changes e w)) = int (length inventory)))"
proof (intro impI conjI)
  assume n: "previous_files w = None"
  note lo = scan_directory_logs_errors_only [of w e UPLOAD_DIR]
  have ce: "change_events (snd (snd (scan_directory e w UPLOAD_DIR))) = change_events w"
    and cl: "change_log (snd (snd (scan_directory e w UPLOAD_DIR))) = change_log w"
    using lo by (rule logs_errors_only_fields)+
  show "change_events (snd (monitor_directory_changes e w)) = change_events w"
  proof (cases "fst (scan_directory e w UPLOAD_DIR) = SUCCESS")
    case True
    from monitor_first_scan [OF True n] ce show ?thesis by simp
  next
    case False
    from monitor_scan_failed [OF False] ce show ?thesis by simp
  qed
  show "change_log (snd (monitor_directory_changes e w)) = change_log w"
  proof (cases "fst (scan_directory e w UPLOAD_DIR) = SUCCESS")
    case True
    from monitor_first_scan [OF True n] cl show ?thesis by simp
  next
    case False
    from monitor_scan_failed [OF False] cl show ?thesis by simp
  qed
  assume ok: "fst (scan_directory e w UPLOAD_DIR) = SUCCESS"
  note m = monitor_first_scan [OF ok n]
  from m show "fst (monitor_directory_changes e w) = SUCCESS" by simp
  from m show p: "previous_files (snd (monitor_directory_changes e w)) =
          fst (snd (scan_directory e w UPLOAD_DIR))"
    by simp
  from ok scan_directory_status [of e w UPLOAD_DIR] obtain inventory where
    "fst (snd (scan_directory e w UPLOAD_DIR)) = Some inventory"
    by blast
  with p show "\<exists>inventory. previous_files (snd (monitor_directory_changes e w)) = Some inventory \<and>
           previous_file_count (snd (monitor_directory_changes e w)) = int (length inventory)"
    by (simp add: previous_file_count_def)
qed

text \<open>The theorem on the first call of a started daemon.\<close>

theorem monitor_priming_run_witness:
  "fst (monitor_directory_changes sales_touched_env started_world) = SUCCESS \<and>
   previous_files (snd (monitor_directory_changes sales_touched_env started_world)) =
     Some current_three \<and>
   change_events (snd (monitor_directory_changes sales_touched_env started_world)) = []"
proof -
  let ?e = sales_touched_env and ?w = started_world
  have n: "previous_files ?w = None" by (simp add: started_world_def)
  have s: "scan_directory ?e ?w UPLOAD_DIR = (SUCCESS, Some current_three, ?w)"
    by (rule scan_sales_touched)
  then have ok: "fst (scan_directory ?e ?w UPLOAD_DIR) = SUCCESS" by simp
  from monitor_priming_run [of ?w ?e] n ok
  have "change_events (snd (monitor_directory_changes ?e ?w)) = change_events ?w"
    and "fst (monitor_directory_changes ?e ?w) = SUCCESS"
    and "previous_files (snd (monitor_directory_changes ?e ?w)) =
          fst (snd (scan_directory ?e ?w UPLOAD_DIR))"
    by blast+
  with s show ?thesis by (simp add: started_world_def)
qed

text \<open>
  Claim C7. When the scan of the upload directory fails, \<open>monitor_directory_changes\<close>
  returns \<open>FAILURE\<close> and \<open>previous_files\<close> and \<open>previous_file_count\<close> are as before;
  when it succeeds, \<open>monitor_directory_changes\<close> returns \<open>SUCCESS\<close> and they are the
  inventory of that scan and its length.
\<close>

theorem monitor_previous_inventory:
  "(fst (scan_directory e w UPLOAD_DIR) \<noteq> SUCCESS \<longrightarrow>
      fst (monitor_directory_changes e w) = FAILURE \<and>
      previous_files (snd (monitor_directory_changes e w)) = previous_files w \<and>
      previous_file_count (snd (monitor_directory_changes e w)) = previous_file_count w) \<and>
   (fst (scan_directory e w UPLOAD_DIR) = SUCCESS \<longrightarrow>
      fst (monitor_directory_changes e w) = SUCCESS \<and>
      previous_files (snd (monitor_directory_changes e w)) =
        fst (snd (scan_directory e w UPLOAD_DIR)) \<and>
      (\<exists>inventory. fst (snd (scan_directory e w UPLOAD_DIR)) = Some inventory \<and>
         previous_file_count (snd (monitor_directory_changes e w)) = int (length inventory)))"
proof (intro conjI impI)
  assume f: "fst (scan_directory e w UPLOAD_DIR) \<noteq> SUCCESS"
  have pf: "previous_files (snd (snd (scan_directory e w UPLOAD_DIR))) = previous_files w"
    using scan_directory_logs_errors_only [of w e UPLOAD_DIR] by (rule logs_errors_only_fields)
  from monitor_scan_failed [OF f] show "fst (monitor_directory_changes e w) = FAILURE"
    by simp
  from monitor_scan_failed [OF f] pf
  show p: "previous_files (snd (monitor_directory_changes e w)) = previous_files w"
    by simp
  then show "previous_file_count (snd (monitor_directory_changes e w)) = previous_file_count w"
    by (simp add: previous_file_count_def)
next
  assume ok: "fst (scan_directory e w UPLOAD_DIR) = SUCCESS"
  from ok scan_directory_status [of e w UPLOAD_DIR] obtain cur where
    cur: "fst (snd (scan_directory e w UPLOAD_DIR)) = Some cur"
    by blast
  obtain w1 where s: "scan_directory e w UPLOAD_DIR = (SUCCESS, Some cur, w1)"
    using ok cur by (cases "scan_directory e w UPLOAD_DIR") auto
  have r: "fst (monitor_directory_changes e w) = SUCCESS \<and>
           previous_files (snd (monitor_directory_changes e w)) = Some cur"
  proof (cases "previous_files w")
    case None
    from monitor_first_scan [OF ok None] cur show ?thesis by simp
  next
    case (Some prev)
    from monitor_compared [OF s Some] show ?thesis by simp
  qed
  from r show "fst (monitor_directory_changes e w) = SUCCESS" by simp
  from r cur show "previous_files (snd (monitor_directory_changes e w)) =
        fst (snd (scan_directory e w UPLOAD_DIR))"
    by simp
  from r cur show "\<exists>inventory. fst (snd (scan_directory e w UPLOAD_DIR)) = Some inventory \<and>
         previous_file_count (snd (monitor_directory_changes e w)) = int (length inventory)"
    by (simp add: previous_file_count_def)
qed

text \<open>The theorem with a previous inventory of three files, on a directory that cannot
  be opened and on one that is scanned.\<close>

theorem monitor_previous_inventory_witness:
  "fst (monitor_directory_changes (calm_env\<lparr>e_opendir := (\<lambda>p. None)\<rparr>) watching_world) = FAILURE \<and>
   previous_files (snd (monitor_directory_changes (calm_env\<lparr>e_opendir := (\<lambda>p. None)\<rparr>)
       watching_world)) = Some previous_three \<and>
   fst (monitor_directory_changes sales_touched_env watching_world) = SUCCESS \<and>
   previous_files (snd (monitor_directory_changes sales_touched_env watching_world)) =
     Some current_three \<and>
   previous_file_count (snd (monitor_directory_changes sales_touched_env watching_world)) = 3"
proof -
  let ?f = "calm_env\<lparr>e_opendir := (\<lambda>p. None)\<rparr>" and ?e = sales_touched_env
  let ?w = watching_world
  have "fst (scan_directory ?f ?w UPLOAD_DIR) \<noteq> SUCCESS"
    by (simp add: scan_directory_def)
  with monitor_previous_inventory [of ?f ?w]
  have "fst (monitor_directory_changes ?f ?w) = FAILURE \<and>
      previous_files (snd (monitor_directory_changes ?f ?w)) = previous_files ?w"
    by blast
  then have a: "fst (monitor_directory_changes ?f ?w) = FAILURE \<and>
      previous_files (snd (monitor_directory_changes ?f ?w)) = Some previous_three"
    by (simp add: watching_world_def)
  have s: "scan_directory ?e ?w UPLOAD_DIR = (SUCCESS, Some current_three, ?w)"
    by (rule scan_sales_touched)
  then have ok: "fst (scan_directory ?e ?w UPLOAD_DIR) = SUCCESS" by simp
  with monitor_previous_inventory [of ?e ?w]
  have "fst (monitor_directory_changes ?e ?w) = SUCCESS"
    and "previous_files (snd (monitor_directory_changes ?e ?w)) =
        fst (snd (scan_directory ?e ?w UPLOAD_DIR))"
    and "\<exists>inventory. fst (snd (scan_directory ?e ?w UPLOAD_DIR)) = Some inventory \<and>
         previous_file_count (snd (monitor_directory_changes ?e ?w)) = int (length inventory)"
    by blast+
  with s have b: "fst (monitor_directory_changes ?e ?w) = SUCCESS \<and>
      previous_files (snd (monitor_directory_changes ?e ?w)) = Some current_three \<and>
      previous_file_count (snd (monitor_directory_changes ?e ?w)) = 3"
    by (simp add: current_three_def)
  from a b show ?thesis by blast
qed

section \<open>What the steps of the loop change of the flags, the permissions and the announcements\<close>

lemma log_more_fields [simp]:
  "daemon_exit (log_error w f a) = daemon_exit w"
  "daemon_exit (log_operation w f a) = daemon_exit w"
  "last_scan_time (log_error w f a) = last_scan_time w"
  "last_scan_time (log_operation w f a) = last_scan_time w"
  "fifo_fd (log_error w f a) = fifo_fd w"
  "fifo_fd (log_operation w f a) = fifo_fd w"
  by (simp_all add: log_error_def log_operation_def)

lemma control_log [simp]:
  "control (log_error w f a) = control w"
  "control (log_operation w f a) = control w"
  "control (w\<lparr>fs_trace := t\<rparr>) = control w"
  "control (w\<lparr>previous_files := pf, last_scan_time := t'\<rparr>) = control w"
  "control (snd (log_file_change e w u n ac)) = control w"
  "control (snd (snd (get_file_owner e w p k))) = control w"
  by (simp_all add: control_def log_error_def log_operation_def log_file_change_def
      get_file_owner_def Let_def split: option.splits)

lemma phases_log [simp]:
  "phases (log_error w f a) = phases w"
  "phases (log_operation w f a) = phases w @ (if f \<in> set phase_markers then [f] else [])"
  "phases (w\<lparr>fs_trace := t\<rparr>) = phases w"
  "phases (w\<lparr>previous_files := pf, last_scan_time := t'\<rparr>) = phases w"
  "phases (w\<lparr>force_transfer := x\<rparr>) = phases w"
  "phases (w\<lparr>force_backup := x\<rparr>) = phases w"
  "phases (w\<lparr>mode_of := mo\<rparr>) = phases w"
  "phases (snd (log_file_change e w u n ac)) = phases w"
  "phases (snd (snd (get_file_owner e w p k))) = phases w"
  by (simp_all add: phases_def)

lemma copy_file_control [simp]: "control (snd (copy_file e w s d)) = control w"
  by (simp add: copy_file_def Let_def case_prod_beta split: option.splits)

lemma copy_file_phases [simp]: "phases (snd (copy_file e w s d)) = phases w"
  by (simp add: phases_def copy_file_operation_log)

lemma move_file_control [simp]: "control (snd (move_file e w s d)) = control w"
  by (simp add: move_file_def Let_def case_prod_beta)

lemma move_file_phases [simp]: "phases (snd (move_file e w s d)) = phases w"
  by (simp add: phases_def)

lemma transfer_loop_control [simp]:
  "control (snd (transfer_loop e entries result w)) = control w"
  by (induction entries arbitrary: result w) (simp_all add: Let_def case_prod_beta)

lemma transfer_loop_phases [simp]:
  "phases (snd (transfer_loop e entries result w)) = phases w"
  by (induction entries arbitrary: result w)
     (simp_all add: Let_def case_prod_beta phase_markers_def)

lemma transfer_reports_control [simp]:
  "control (snd (transfer_reports e w)) = control w"
  by (simp add: transfer_reports_def Let_def split: option.splits)

lemma transfer_reports_phases [simp]:
  "phases (snd (transfer_reports e w)) =
     phases w @ [''Starting report transfer from upload to dashboard'']"
  by (simp add: transfer_reports_def Let_def phase_markers_def split: option.splits)

lemma log_missing_control [simp]:
  "control (snd (log_missing rs fs c w)) = control w"
  by (induction rs fs c w rule: log_missing.induct) simp_all

lemma log_missing_phases [simp]:
  "phases (snd (log_missing rs fs c w)) = phases w"
  by (induction rs fs c w rule: log_missing.induct) simp_all

lemma check_missing_reports_control [simp]:
  "control (snd (check_missing_reports e w)) = control w"
  by (simp add: check_missing_reports_def Let_def case_prod_beta split: option.splits)

lemma check_missing_reports_phases [simp]:
  "phases (snd (check_missing_reports e w)) =
     phases w @ [''Checking for missing department reports'']"
  by (simp add: check_missing_reports_def Let_def case_prod_beta phase_markers_def
      split: option.splits)

lemma backup_loop_control [simp]:
  "control (snd (snd (backup_loop e bp entries sc fc w))) = control w"
  by (induction entries arbitrary: sc fc w) (simp_all add: Let_def case_prod_beta)

lemma backup_loop_phases [simp]:
  "phases (snd (snd (backup_loop e bp entries sc fc w))) = phases w"
  by (induction entries arbitrary: sc fc w) (simp_all add: Let_def case_prod_beta)

lemma backup_dashboard_control [simp]:
  "control (snd (backup_dashboard e w)) = control w"
  by (simp add: backup_dashboard_def Let_def case_prod_beta split: option.splits)

lemma backup_dashboard_phases [simp]:
  "phases (snd (backup_dashboard e w)) = phases w @ [''Starting dashboard backup'']"
  by (simp add: backup_dashboard_def Let_def case_prod_beta phase_markers_def
      split: option.splits)


lemma set_directory_permissions_control:
  "control (snd (set_directory_permissions e w p mode)) =
     (daemon_exit w, force_backup w, force_transfer w, chmod_result e (mode_of w) p mode)"
  by (simp add: set_directory_permissions_def control_def chmod_result_def log_error_def)

lemma set_directory_permissions_phases [simp]:
  "phases (snd (set_directory_permissions e w p mode)) = phases w"
  by (simp add: set_directory_permissions_def)

lemma lock_directories_control:
  "control (snd (lock_directories e w)) =
     (daemon_exit w, force_backup w, force_transfer w, locked_modes e (mode_of w))"
  by (simp add: lock_directories_def control_def chmod_result_def locked_modes_def
      set_directory_permissions_def log_error_def log_operation_def Let_def)

lemma lock_directories_phases [simp]:
  "phases (snd (lock_directories e w)) = phases w @ [''Locking directories for backup/transfer'']"
  by (simp add: lock_directories_def Let_def case_prod_beta phase_markers_def)

lemma unlock_directories_control:
  "control (snd (unlock_directories e w)) =
     (daemon_exit w, force_backup w, force_transfer w, unlocked_modes e (mode_of w))"
  by (simp add: unlock_directories_def control_def chmod_result_def unlocked_modes_def
      set_directory_permissions_def log_error_def log_operation_def Let_def)

lemma unlock_directories_phases [simp]:
  "phases (snd (unlock_directories e w)) =
     phases w @ [''Unlocking directories after backup/transfer'']"
  by (simp add: unlock_directories_def Let_def case_prod_beta phase_markers_def)

lemma control_fields:
  "control w' = (x, b, t, m) \<Longrightarrow>
     daemon_exit w' = x \<and> force_backup w' = b \<and> force_transfer w' = t \<and> mode_of w' = m"
  by (simp add: control_def)

lemma control_eq_fields:
  "control w' = control w \<Longrightarrow>
     daemon_exit w' = daemon_exit w \<and> force_backup w' = force_backup w \<and>
     force_transfer w' = force_transfer w \<and> mode_of w' = mode_of w"
  by (simp add: control_def)

lemma monitor_directory_changes_frame:
  "control (snd (monitor_directory_changes e w)) = control w \<and>
   phases (snd (monitor_directory_changes e w)) = phases w"
proof -
  note lo = scan_directory_logs_errors_only [of w e UPLOAD_DIR]
  let ?ws = "snd (snd (scan_directory e w UPLOAD_DIR))"
  have s: "control ?ws = control w \<and> phases ?ws = phases w"
    using logs_errors_only_fields [OF lo] by (simp add: control_def phases_def)
  show ?thesis
  proof (cases "fst (scan_directory e w UPLOAD_DIR) = SUCCESS")
    case False
    from monitor_scan_failed [OF False] s show ?thesis by simp
  next
    case True
    show ?thesis
    proof (cases "previous_files w")
      case None
      from monitor_first_scan [OF True None] s show ?thesis by simp
    next
      case (Some prev)
      from True scan_directory_status [of e w UPLOAD_DIR] obtain cur where
        "fst (snd (scan_directory e w UPLOAD_DIR)) = Some cur"
        by blast
      with True have sc: "scan_directory e w UPLOAD_DIR = (SUCCESS, Some cur, ?ws)"
        by (cases "scan_directory e w UPLOAD_DIR") auto
      let ?w1 = "new_or_modified e cur prev ?ws"
      let ?w2 = "deleted_loop e prev cur ?w1"
      have "changes_logs_only ?ws ?w1" using new_or_modified_result by blast
      moreover have "changes_logs_only ?w1 ?w2" using deleted_loop_result by blast
      ultimately have "changes_logs_only ?ws ?w2" by (rule changes_logs_only_trans)
      from changes_logs_only_fields [OF this] s
      have "control ?w2 = control w \<and> phases ?w2 = phases w"
        by (simp add: control_def phases_def)
      with monitor_compared [OF sc Some] show ?thesis by simp
    qed
  qed
qed

lemma unlock_directories_status:
  "fst (unlock_directories e w) =
     (if e_chmod e UPLOAD_DIR UPLOAD_PERMISSIONS \<and> e_chmod e DASHBOARD_DIR DASHBOARD_PERMISSIONS
      then SUCCESS else FAILURE)"
  by (simp add: unlock_directories_def set_directory_permissions_def Let_def)

lemma unlock_directories_error_log:
  "error_log (snd (unlock_directories e w)) = error_log w @ unlock_failures e"
  by (simp add: unlock_directories_def set_directory_permissions_def Let_def
      unlock_failures_def log_error_def log_operation_def)

lemma unlock_directories_modes:
  "mode_of (snd (unlock_directories e w)) = unlocked_modes e (mode_of w)"
  using unlock_directories_control [of e w] control_fields by blast

lemma unlocked_modes_cases:
  "unlocked_modes e m UPLOAD_DIR =
     (if e_chmod e UPLOAD_DIR UPLOAD_PERMISSIONS then UPLOAD_PERMISSIONS else m UPLOAD_DIR)"
  "unlocked_modes e m DASHBOARD_DIR =
     (if e_chmod e DASHBOARD_DIR DASHBOARD_PERMISSIONS then DASHBOARD_PERMISSIONS
      else m DASHBOARD_DIR)"
  by (simp_all add: unlocked_modes_def chmod_result_def UPLOAD_DIR_def DASHBOARD_DIR_def)

lemma locked_modes_cases:
  "locked_modes e m UPLOAD_DIR =
     (if e_chmod e UPLOAD_DIR LOCKED_PERMISSIONS then LOCKED_PERMISSIONS else m UPLOAD_DIR)"
  "locked_modes e m DASHBOARD_DIR =
     (if e_chmod e DASHBOARD_DIR LOCKED_PERMISSIONS then LOCKED_PERMISSIONS
      else m DASHBOARD_DIR)"
  by (simp_all add: locked_modes_def chmod_result_def UPLOAD_DIR_def DASHBOARD_DIR_def)

text \<open>Both runs end with the call of \<open>unlock_directories\<close>, in a world whose
  announcements are those of the run so far and whose permissions are those that the
  locking has left.\<close>

lemma transfer_and_backup_unlock:
  "\<exists>w4. transfer_and_backup ie w =
          (snd (unlock_directories (at_unlock ie) w4))\<lparr>force_transfer := 0\<rparr> \<and>
        phases w4 = phases w @ butlast scheduled_phases \<and>
        control w4 = (daemon_exit w, force_backup w, force_transfer w,
                      locked_modes (at_lock ie) (mode_of w))"
proof -
  let ?w0 = "log_operation w ''Starting scheduled file transfer and backup'' []"
  let ?w1 = "snd (lock_directories (at_lock ie) ?w0)"
  let ?t = "transfer_reports (at_transfer ie) ?w1"
  let ?w2 = "if fst ?t = SUCCESS
             then log_operation (snd ?t) ''File transfer completed successfully'' []
             else log_error (snd ?t) ''File transfer failed'' []"
  let ?w3 = "snd (check_missing_reports (at_check ie) ?w2)"
  let ?b = "backup_dashboard (at_backup ie) ?w3"
  let ?w4 = "if fst ?b = SUCCESS
             then log_operation (snd ?b) ''Backup completed successfully'' []
             else log_error (snd ?b) ''Backup failed'' []"
  let ?w5 = "snd (unlock_directories (at_unlock ie) ?w4)"
  have r: "transfer_and_backup ie w = ?w5\<lparr>force_transfer := 0\<rparr>"
    by (simp add: transfer_and_backup_def Let_def case_prod_beta)
  have p0: "phases ?w0 = phases w @ [''Starting scheduled file transfer and backup'']"
    by (simp add: phase_markers_def)
  have p2: "phases ?w2 = phases (snd ?t)"
    by (simp add: phase_markers_def)
  have p4: "phases ?w4 = phases (snd ?b)"
    by (simp add: phase_markers_def)
  have ph: "phases ?w4 = phases w @ butlast scheduled_phases"
    by (simp only: p4 backup_dashboard_phases
        check_missing_reports_phases p2 transfer_reports_phases lock_directories_phases p0)
       (simp add: scheduled_phases_def)
  have c1: "control ?w1 = (daemon_exit w, force_backup w, force_transfer w,
                           locked_modes (at_lock ie) (mode_of w))"
    using lock_directories_control [of "at_lock ie" ?w0] by simp
  have c2: "control ?w2 = control ?w1" by simp
  have c4: "control ?w4 = control ?w1" by (simp add: c2)
  from c4 c1 have c: "control ?w4 = (daemon_exit w, force_backup w, force_transfer w,
                                     locked_modes (at_lock ie) (mode_of w))"
    by (simp only:)
  from r ph c show ?thesis by (intro exI [of _ ?w4] conjI)
qed

lemma manual_backup_unlock:
  "\<exists>w4. manual_backup ie w =
          (snd (unlock_directories (at_manual_unlock ie) w4))\<lparr>force_backup := 0\<rparr> \<and>
        phases w4 = phases w @ butlast manual_phases \<and>
        control w4 = (daemon_exit w, force_backup w, force_transfer w,
                      locked_modes (at_manual_lock ie) (mode_of w))"
proof -
  let ?w0 = "log_operation w ''Starting manual backup'' []"
  let ?w1 = "snd (lock_directories (at_manual_lock ie) ?w0)"
  let ?b = "backup_dashboard (at_manual_backup ie) ?w1"
  let ?w4 = "if fst ?b = SUCCESS
             then log_operation (snd ?b) ''Manual backup completed successfully'' []
             else log_error (snd ?b) ''Manual backup failed'' []"
  let ?w5 = "snd (unlock_directories (at_manual_unlock ie) ?w4)"
  have r: "manual_backup ie w = ?w5\<lparr>force_backup := 0\<rparr>"
    by (simp add: manual_backup_def Let_def case_prod_beta)
  have p0: "phases ?w0 = phases w @ [''Starting manual backup'']"
    by (simp add: phase_markers_def)
  have p4: "phases ?w4 = phases (snd ?b)"
    by (simp add: phase_markers_def)
  have ph: "phases ?w4 = phases w @ butlast manual_phases"
    by (simp only: p4 backup_dashboard_phases lock_directories_phases p0)
       (simp add: manual_phases_def)
  have c1: "control ?w1 = (daemon_exit w, force_backup w, force_transfer w,
                           locked_modes (at_manual_lock ie) (mode_of w))"
    using lock_directories_control [of "at_manual_lock ie" ?w0] by simp
  have c4: "control ?w4 = control ?w1" by simp
  from c4 c1 have c: "control ?w4 = (daemon_exit w, force_backup w, force_transfer w,
                                     locked_modes (at_manual_lock ie) (mode_of w))"
    by (simp only:)
  from r ph c show ?thesis by (intro exI [of _ ?w4] conjI)
qed

lemma transfer_and_backup_result:
  "phases (transfer_and_backup ie w) = phases w @ scheduled_phases \<and>
   control (transfer_and_backup ie w) =
     (daemon_exit w, force_backup w, 0,
      unlocked_modes (at_unlock ie) (locked_modes (at_lock ie) (mode_of w)))"
proof -
  from transfer_and_backup_unlock [of ie w] obtain w4 where
    r: "transfer_and_backup ie w =
          (snd (unlock_directories (at_unlock ie) w4))\<lparr>force_transfer := 0\<rparr>"
    and ph: "phases w4 = phases w @ butlast scheduled_phases"
    and c: "control w4 = (daemon_exit w, force_backup w, force_transfer w,
                          locked_modes (at_lock ie) (mode_of w))"
    by blast
  have "phases (transfer_and_backup ie w) = phases w @ scheduled_phases"
    by (simp add: r ph) (simp add: scheduled_phases_def)
  moreover have "control (transfer_and_backup ie w) =
     (daemon_exit w, force_backup w, 0,
      unlocked_modes (at_unlock ie) (locked_modes (at_lock ie) (mode_of w)))"
    using unlock_directories_control [of "at_unlock ie" w4] control_fields [OF c]
    by (simp add: r control_def)
  ultimately show ?thesis by simp
qed

lemma manual_backup_result:
  "phases (manual_backup ie w) = phases w @ manual_phases \<and>
   control (manual_backup ie w) =
     (daemon_exit w, 0, force_transfer w,
      unlocked_modes (at_manual_unlock ie) (locked_modes (at_manual_lock ie) (mode_of w)))"
proof -
  from manual_backup_unlock [of ie w] obtain w4 where
    r: "manual_backup ie w =
          (snd (unlock_directories (at_manual_unlock ie) w4))\<lparr>force_backup := 0\<rparr>"
    and ph: "phases w4 = phases w @ butlast manual_phases"
    and c: "control w4 = (daemon_exit w, force_backup w, force_transfer w,
                          locked_modes (at_manual_lock ie) (mode_of w))"
    by blast
  have "phases (manual_backup ie w) = phases w @ manual_phases"
    by (simp add: r ph) (simp add: manual_phases_def)
  moreover have "control (manual_backup ie w) =
     (daemon_exit w, 0, force_transfer w,
      unlocked_modes (at_manual_unlock ie) (locked_modes (at_manual_lock ie) (mode_of w)))"
    using unlock_directories_control [of "at_manual_unlock ie" w4] control_fields [OF c]
    by (simp add: r control_def)
  ultimately show ?thesis by simp
qed

text \<open>The permissions after an iteration: those that the scheduled sequence leaves, when
  it is run, and then those that the manual backup leaves, when it is run.\<close>

lemma daemon_iteration_phases_control:
  "phases (fst (daemon_iteration ie w lc)) =
     phases w @
     (if transfer_due (at_start ie) \<or> force_transfer w \<noteq> 0 then scheduled_phases else []) @
     (if force_backup w \<noteq> 0 then manual_phases else []) \<and>
   control (fst (daemon_iteration ie w lc)) =
     (daemon_exit w,
      0,
      (if transfer_due (at_start ie) \<or> force_transfer w \<noteq> 0 then 0 else force_transfer w),
      mode_of (if force_backup w \<noteq> 0
               then manual_backup ie
                      (if transfer_due (at_start ie) \<or> force_transfer w \<noteq> 0
                       then transfer_and_backup ie w else w)
               else if transfer_due (at_start ie) \<or> force_transfer w \<noteq> 0
                    then transfer_and_backup ie w else w))"
proof -
  let ?trig = "transfer_due (at_start ie) \<or> force_transfer w \<noteq> 0"
  define w1 where "w1 = (if ?trig then transfer_and_backup ie w else w)"
  define w2 where "w2 = snd (monitor_directory_changes (at_monitor ie) w1)"
  have p1: "phases w1 = phases w @ (if ?trig then scheduled_phases else [])"
    unfolding w1_def using transfer_and_backup_result [of ie w] by simp
  have c1: "control w1 =
      (daemon_exit w, force_backup w, (if ?trig then 0 else force_transfer w), mode_of w1)"
  proof (cases ?trig)
    case True
    then have e: "w1 = transfer_and_backup ie w" by (simp add: w1_def)
    from transfer_and_backup_result [of ie w]
    have "control (transfer_and_backup ie w) =
            (daemon_exit w, force_backup w, 0, mode_of (transfer_and_backup ie w))"
      by (simp add: control_def)
    with True e show ?thesis by simp
  next
    case False
    then show ?thesis by (simp add: w1_def control_def)
  qed
  have fb1: "force_backup w1 = force_backup w"
    using control_fields [OF c1] by simp
  have p2: "phases w2 = phases w1" and c2: "control w2 = control w1"
    unfolding w2_def using monitor_directory_changes_frame [of "at_monitor ie" w1] by simp_all
  have fb2: "force_backup w2 = force_backup w"
    using control_eq_fields [OF c2] fb1 by simp
  have it: "fst (daemon_iteration ie w lc) =
            (if e_time (at_start ie) - lc \<ge> 5 \<or> force_backup w1 \<noteq> 0
             then (if force_backup w2 \<noteq> 0 then manual_backup ie w2 else w2) else w1)"
    unfolding w1_def w2_def by (simp add: daemon_iteration_def Let_def transfer_due_def)
  show ?thesis
  proof (cases "force_backup w \<noteq> 0")
    case True
    with it fb1 fb2 have r: "fst (daemon_iteration ie w lc) = manual_backup ie w2" by simp
    from manual_backup_result [of ie w2] p2 p1 True
    have ph: "phases (manual_backup ie w2) =
            phases w @ (if ?trig then scheduled_phases else []) @ manual_phases"
      by simp
    have m2: "mode_of w2 = mode_of w1" using control_eq_fields [OF c2] by simp
    have mm: "mode_of (manual_backup ie w2) = mode_of (manual_backup ie w1)"
      using manual_backup_result [of ie w2] manual_backup_result [of ie w1] m2
      by (simp add: control_def)
    from manual_backup_result [of ie w2]
    have "control (manual_backup ie w2) =
      (daemon_exit w2, 0, force_transfer w2, mode_of (manual_backup ie w2))"
      by (simp add: control_def)
    with control_eq_fields [OF c2] control_fields [OF c1] mm
    have "control (manual_backup ie w2) =
      (daemon_exit w, 0, (if ?trig then 0 else force_transfer w),
       mode_of (manual_backup ie w1))"
      by simp
    with ph r True show ?thesis unfolding w1_def by simp
  next
    case False
    with it fb1 fb2
    have "fst (daemon_iteration ie w lc) = w2 \<or> fst (daemon_iteration ie w lc) = w1"
      by simp
    with p2 c2 have "phases (fst (daemon_iteration ie w lc)) = phases w1 \<and>
       control (fst (daemon_iteration ie w lc)) = control w1"
      by auto
    with p1 c1 False show ?thesis unfolding w1_def by simp
  qed
qed

section \<open>One iteration of the loop\<close>

lemma last_scheduled_phases: "last (ps @ scheduled_phases) = ''Unlocking directories after backup/transfer''"
  by (simp add: scheduled_phases_def)

lemma last_manual_phases: "last (ps @ manual_phases) = ''Unlocking directories after backup/transfer''"
  by (simp add: manual_phases_def)

lemma transfer_and_backup_modes:
  "mode_of (transfer_and_backup ie w) =
     unlocked_modes (at_unlock ie) (locked_modes (at_lock ie) (mode_of w))"
  using transfer_and_backup_result [of ie w] control_fields by blast

lemma manual_backup_modes:
  "mode_of (manual_backup ie w) =
     unlocked_modes (at_manual_unlock ie) (locked_modes (at_manual_lock ie) (mode_of w))"
  using manual_backup_result [of ie w] control_fields by blast

lemma transfer_and_backup_call:
  "\<exists>w4. transfer_and_backup ie w =
            (snd (unlock_directories (at_unlock ie) w4))\<lparr>force_transfer := 0\<rparr> \<and>
          mode_of w4 UPLOAD_DIR =
            (if e_chmod (at_lock ie) UPLOAD_DIR LOCKED_PERMISSIONS then LOCKED_PERMISSIONS
             else mode_of w UPLOAD_DIR) \<and>
          mode_of w4 DASHBOARD_DIR =
            (if e_chmod (at_lock ie) DASHBOARD_DIR LOCKED_PERMISSIONS then LOCKED_PERMISSIONS
             else mode_of w DASHBOARD_DIR) \<and>
          error_log (transfer_and_backup ie w) = error_log w4 @ unlock_failures (at_unlock ie) \<and>
          (fst (unlock_directories (at_unlock ie) w4) = SUCCESS \<longrightarrow>
             mode_of (transfer_and_backup ie w) UPLOAD_DIR = UPLOAD_PERMISSIONS \<and>
             mode_of (transfer_and_backup ie w) DASHBOARD_DIR = DASHBOARD_PERMISSIONS)"
proof -
  from transfer_and_backup_unlock [of ie w] obtain w4 where
    r: "transfer_and_backup ie w =
          (snd (unlock_directories (at_unlock ie) w4))\<lparr>force_transfer := 0\<rparr>"
    and c: "control w4 = (daemon_exit w, force_backup w, force_transfer w,
                          locked_modes (at_lock ie) (mode_of w))"
    by blast
  from control_fields [OF c] have m: "mode_of w4 = locked_modes (at_lock ie) (mode_of w)"
    by simp
  have el: "error_log (transfer_and_backup ie w) = error_log w4 @ unlock_failures (at_unlock ie)"
    by (simp add: r unlock_directories_error_log)
  have s: "fst (unlock_directories (at_unlock ie) w4) = SUCCESS \<longrightarrow>
             mode_of (transfer_and_backup ie w) UPLOAD_DIR = UPLOAD_PERMISSIONS \<and>
             mode_of (transfer_and_backup ie w) DASHBOARD_DIR = DASHBOARD_PERMISSIONS"
    by (simp add: unlock_directories_status transfer_and_backup_modes unlocked_modes_cases)
  from r m el s show ?thesis by (auto simp: locked_modes_cases)
qed

lemma manual_backup_call:
  "\<exists>w4. manual_backup ie w =
            (snd (unlock_directories (at_manual_unlock ie) w4))\<lparr>force_backup := 0\<rparr> \<and>
          mode_of w4 UPLOAD_DIR =
            (if e_chmod (at_manual_lock ie) UPLOAD_DIR LOCKED_PERMISSIONS then LOCKED_PERMISSIONS
             else mode_of w UPLOAD_DIR) \<and>
          mode_of w4 DASHBOARD_DIR =
            (if e_chmod (at_manual_lock ie) DASHBOARD_DIR LOCKED_PERMISSIONS then LOCKED_PERMISSIONS
             else mode_of w DASHBOARD_DIR) \<and>
          error_log (manual_backup ie w) = error_log w4 @ unlock_failures (at_manual_unlock ie) \<and>
          (fst (unlock_directories (at_manual_unlock ie) w4) = SUCCESS \<longrightarrow>
             mode_of (manual_backup ie w) UPLOAD_DIR = UPLOAD_PERMISSIONS \<and>
             mode_of (manual_backup ie w) DASHBOARD_DIR = DASHBOARD_PERMISSIONS)"
proof -
  from manual_backup_unlock [of ie w] obtain w4 where
    r: "manual_backup ie w =
          (snd (unlock_directories (at_manual_unlock ie) w4))\<lparr>force_backup := 0\<rparr>"
    and c: "control w4 = (daemon_exit w, force_backup w, force_transfer w,
                          locked_modes (at_manual_lock ie) (mode_of w))"
    by blast
  from control_fields [OF c] have m: "mode_of w4 = locked_modes (at_manual_lock ie) (mode_of w)"
    by simp
  have el: "error_log (manual_backup ie w) =
              error_log w4 @ unlock_failures (at_manual_unlock ie)"
    by (simp add: r unlock_directories_error_log)
  have s: "fst (unlock_directories (at_manual_unlock ie) w4) = SUCCESS \<longrightarrow>
             mode_of (manual_backup ie w) UPLOAD_DIR = UPLOAD_PERMISSIONS \<and>
             mode_of (manual_backup ie w) DASHBOARD_DIR = DASHBOARD_PERMISSIONS"
    by (simp add: unlock_directories_status manual_backup_modes unlocked_modes_cases)
  from r m el s show ?thesis by (auto simp: locked_modes_cases)
qed

lemma daemon_iteration_last_phase:
  assumes "transfer_due (at_start ie) \<or> force_transfer w \<noteq> 0 \<or> force_backup w \<noteq> 0"
  shows "last (phases (fst (daemon_iteration ie w lc))) = ''Unlocking directories after backup/transfer''"
proof (cases "force_backup w \<noteq> 0")
  case True
  with daemon_iteration_phases_control [of ie w lc] show ?thesis
    by (simp add: manual_phases_def)
next
  case False
  with assms daemon_iteration_phases_control [of ie w lc]
  have "phases (fst (daemon_iteration ie w lc)) = phases w @ scheduled_phases"
    by auto
  then show ?thesis by (simp add: scheduled_phases_def)
qed

lemma daemon_iteration_modes:
  "mode_of (fst (daemon_iteration ie w lc)) =
      mode_of (if force_backup w \<noteq> 0
               then manual_backup ie (if transfer_due (at_start ie) \<or> force_transfer w \<noteq> 0
                                      then transfer_and_backup ie w else w)
               else if transfer_due (at_start ie) \<or> force_transfer w \<noteq> 0
                    then transfer_and_backup ie w else w)"
  using daemon_iteration_phases_control [of ie w lc] control_fields by blast

lemma daemon_iteration_unlocked:
  assumes "transfer_due (at_start ie) \<or> force_transfer w \<noteq> 0 \<or> force_backup w \<noteq> 0"
  shows "(e_chmod (if force_backup w \<noteq> 0 then at_manual_unlock ie else at_unlock ie)
          UPLOAD_DIR UPLOAD_PERMISSIONS \<longrightarrow>
        mode_of (fst (daemon_iteration ie w lc)) UPLOAD_DIR = UPLOAD_PERMISSIONS) \<and>
       (e_chmod (if force_backup w \<noteq> 0 then at_manual_unlock ie else at_unlock ie)
          DASHBOARD_DIR DASHBOARD_PERMISSIONS \<longrightarrow>
        mode_of (fst (daemon_iteration ie w lc)) DASHBOARD_DIR = DASHBOARD_PERMISSIONS)"
  using assms
  by (auto simp: daemon_iteration_modes transfer_and_backup_modes manual_backup_modes
      unlocked_modes_cases)

lemma due_at_one:
  "transfer_due (calm_env_at 3600)" "transfer_due jammed_env"
  "transfer_due (at_start (steady (calm_env_at 3600)))"
  "transfer_due (at_start stuck_iteration)" "transfer_due (at_start relocked_iteration)"
  by (simp_all add: transfer_due_def calm_env_at_def jammed_env_def calm_env_def
      steady_def stuck_iteration_def relocked_iteration_def
      TRANSFER_HOUR_def TRANSFER_MINUTE_def)




text \<open>
  Claim C1, as the code has it. \<open>unlock_directories\<close> announces itself, attempts the
  change of permissions of both directories, writes two lines to the error log for each
  directory whose \<open>chmod\<close> fails, and returns \<open>SUCCESS\<close> exactly when both attempts
  succeed; a directory whose \<open>chmod\<close> succeeds has its normal permissions afterwards,
  0777 for the upload and 0755 for the dashboard directory, and the other one keeps the
  permissions it had. Every run that the loop starts, the scheduled or forced sequence
  of transfer, check and backup as well as the manual backup, ends with this call,
  whatever the transfer and the backup returned: its announcement is the last one of
  the run, the run's world is the one the call leaves (with the run's flag cleared), and
  the lines of the call are the last ones of the run's error log. So both directories
  end the run with their normal permissions when the call returns \<open>SUCCESS\<close>, and a
  directory whose \<open>chmod\<close> fails ends it with the permissions the locking has left:
  none if locking it had succeeded, and those from before the run otherwise. The
  permissions after an iteration of the loop are those after the last run it makes,
  where every call of each run is answered by the environment it finds.
\<close>

theorem unlock_after_every_run:
  "(fst (unlock_directories e w) =
      (if e_chmod e UPLOAD_DIR UPLOAD_PERMISSIONS \<and>
          e_chmod e DASHBOARD_DIR DASHBOARD_PERMISSIONS
       then SUCCESS else FAILURE) \<and>
    phases (snd (unlock_directories e w)) = phases w @ [''Unlocking directories after backup/transfer''] \<and>
    error_log (snd (unlock_directories e w)) = error_log w @ unlock_failures e \<and>
    mode_of (snd (unlock_directories e w)) UPLOAD_DIR =
      (if e_chmod e UPLOAD_DIR UPLOAD_PERMISSIONS then UPLOAD_PERMISSIONS
       else mode_of w UPLOAD_DIR) \<and>
    mode_of (snd (unlock_directories e w)) DASHBOARD_DIR =
      (if e_chmod e DASHBOARD_DIR DASHBOARD_PERMISSIONS then DASHBOARD_PERMISSIONS
       else mode_of w DASHBOARD_DIR)) \<and>
   (phases (transfer_and_backup ie w) = phases w @ scheduled_phases \<and>
    last (phases (transfer_and_backup ie w)) = ''Unlocking directories after backup/transfer'' \<and>
    (\<exists>w4. transfer_and_backup ie w =
            (snd (unlock_directories (at_unlock ie) w4))\<lparr>force_transfer := 0\<rparr> \<and>
          mode_of w4 UPLOAD_DIR =
            (if e_chmod (at_lock ie) UPLOAD_DIR LOCKED_PERMISSIONS then LOCKED_PERMISSIONS
             else mode_of w UPLOAD_DIR) \<and>
          mode_of w4 DASHBOARD_DIR =
            (if e_chmod (at_lock ie) DASHBOARD_DIR LOCKED_PERMISSIONS then LOCKED_PERMISSIONS
             else mode_of w DASHBOARD_DIR) \<and>
          error_log (transfer_and_backup ie w) = error_log w4 @ unlock_failures (at_unlock ie) \<and>
          (fst (unlock_directories (at_unlock ie) w4) = SUCCESS \<longrightarrow>
             mode_of (transfer_and_backup ie w) UPLOAD_DIR = UPLOAD_PERMISSIONS \<and>
             mode_of (transfer_and_backup ie w) DASHBOARD_DIR = DASHBOARD_PERMISSIONS)) \<and>
    mode_of (transfer_and_backup ie w) UPLOAD_DIR =
      (if e_chmod (at_unlock ie) UPLOAD_DIR UPLOAD_PERMISSIONS then UPLOAD_PERMISSIONS
       else if e_chmod (at_lock ie) UPLOAD_DIR LOCKED_PERMISSIONS then LOCKED_PERMISSIONS
       else mode_of w UPLOAD_DIR) \<and>
    mode_of (transfer_and_backup ie w) DASHBOARD_DIR =
      (if e_chmod (at_unlock ie) DASHBOARD_DIR DASHBOARD_PERMISSIONS then DASHBOARD_PERMISSIONS
       else if e_chmod (at_lock ie) DASHBOARD_DIR LOCKED_PERMISSIONS then LOCKED_PERMISSIONS
       else mode_of w DASHBOARD_DIR)) \<and>
   (phases (manual_backup ie w) = phases w @ manual_phases \<and>
    last (phases (manual_backup ie w)) = ''Unlocking directories after backup/transfer'' \<and>
    (\<exists>w4. manual_backup ie w =
            (snd (unlock_directories (at_manual_unlock ie) w4))\<lparr>force_backup := 0\<rparr> \<and>
          mode_of w4 UPLOAD_DIR =
            (if e_chmod (at_manual_lock ie) UPLOAD_DIR LOCKED_PERMISSIONS then LOCKED_PERMISSIONS
             else mode_of w UPLOAD_DIR) \<and>
          mode_of w4 DASHBOARD_DIR =
            (if e_chmod (at_manual_lock ie) DASHBOARD_DIR LOCKED_PERMISSIONS then LOCKED_PERMISSIONS
             else mode_of w DASHBOARD_DIR) \<and>
          error_log (manual_backup ie w) = error_log w4 @ unlock_failures (at_manual_unlock ie) \<and>
          (fst (unlock_directories (at_manual_unlock ie) w4) = SUCCESS \<longrightarrow>
             mode_of (manual_backup ie w) UPLOAD_DIR = UPLOAD_PERMISSIONS \<and>
             mode_of (manual_backup ie w) DASHBOARD_DIR = DASHBOARD_PERMISSIONS)) \<and>
    mode_of (manual_backup ie w) UPLOAD_DIR =
      (if e_chmod (at_manual_unlock ie) UPLOAD_DIR UPLOAD_PERMISSIONS then UPLOAD_PERMISSIONS
       else if e_chmod (at_manual_lock ie) UPLOAD_DIR LOCKED_PERMISSIONS then LOCKED_PERMISSIONS
       else mode_of w UPLOAD_DIR) \<and>
    mode_of (manual_backup ie w) DASHBOARD_DIR =
      (if e_chmod (at_manual_unlock ie) DASHBOARD_DIR DASHBOARD_PERMISSIONS then DASHBOARD_PERMISSIONS
       else if e_chmod (at_manual_lock ie) DASHBOARD_DIR LOCKED_PERMISSIONS then LOCKED_PERMISSIONS
       else mode_of w DASHBOARD_DIR)) \<and>
   (mode_of (fst (daemon_iteration ie w lc)) =
      mode_of (if force_backup w \<noteq> 0
               then manual_backup ie (if transfer_due (at_start ie) \<or> force_transfer w \<noteq> 0
                                      then transfer_and_backup ie w else w)
               else if transfer_due (at_start ie) \<or> force_transfer w \<noteq> 0
                    then transfer_and_backup ie w else w) \<and>
    (transfer_due (at_start ie) \<or> force_transfer w \<noteq> 0 \<or> force_backup w \<noteq> 0 \<longrightarrow>
       last (phases (fst (daemon_iteration ie w lc))) = ''Unlocking directories after backup/transfer'' \<and>
       (e_chmod (if force_backup w \<noteq> 0 then at_manual_unlock ie else at_unlock ie)
          UPLOAD_DIR UPLOAD_PERMISSIONS \<longrightarrow>
        mode_of (fst (daemon_iteration ie w lc)) UPLOAD_DIR = UPLOAD_PERMISSIONS) \<and>
       (e_chmod (if force_backup w \<noteq> 0 then at_manual_unlock ie else at_unlock ie)
          DASHBOARD_DIR DASHBOARD_PERMISSIONS \<longrightarrow>
        mode_of (fst (daemon_iteration ie w lc)) DASHBOARD_DIR = DASHBOARD_PERMISSIONS)))"
proof -
  have u: "fst (unlock_directories e w) =
      (if e_chmod e UPLOAD_DIR UPLOAD_PERMISSIONS \<and>
          e_chmod e DASHBOARD_DIR DASHBOARD_PERMISSIONS
       then SUCCESS else FAILURE) \<and>
    phases (snd (unlock_directories e w)) = phases w @ [''Unlocking directories after backup/transfer''] \<and>
    error_log (snd (unlock_directories e w)) = error_log w @ unlock_failures e \<and>
    mode_of (snd (unlock_directories e w)) UPLOAD_DIR =
      (if e_chmod e UPLOAD_DIR UPLOAD_PERMISSIONS then UPLOAD_PERMISSIONS
       else mode_of w UPLOAD_DIR) \<and>
    mode_of (snd (unlock_directories e w)) DASHBOARD_DIR =
      (if e_chmod e DASHBOARD_DIR DASHBOARD_PERMISSIONS then DASHBOARD_PERMISSIONS
       else mode_of w DASHBOARD_DIR)"
    by (simp add: unlock_directories_status unlock_directories_error_log
        unlock_directories_modes unlocked_modes_cases)
  have t: "phases (transfer_and_backup ie w) = phases w @ scheduled_phases \<and>
    last (phases (transfer_and_backup ie w)) = ''Unlocking directories after backup/transfer'' \<and>
    (\<exists>w4. transfer_and_backup ie w =
            (snd (unlock_directories (at_unlock ie) w4))\<lparr>force_transfer := 0\<rparr> \<and>
          mode_of w4 UPLOAD_DIR =
            (if e_chmod (at_lock ie) UPLOAD_DIR LOCKED_PERMISSIONS then LOCKED_PERMISSIONS
             else mode_of w UPLOAD_DIR) \<and>
          mode_of w4 DASHBOARD_DIR =
            (if e_chmod (at_lock ie) DASHBOARD_DIR LOCKED_PERMISSIONS then LOCKED_PERMISSIONS
             else mode_of w DASHBOARD_DIR) \<and>
          error_log (transfer_and_backup ie w) = error_log w4 @ unlock_failures (at_unlock ie) \<and>
          (fst (unlock_directories (at_unlock ie) w4) = SUCCESS \<longrightarrow>
             mode_of (transfer_and_backup ie w) UPLOAD_DIR = UPLOAD_PERMISSIONS \<and>
             mode_of (transfer_and_backup ie w) DASHBOARD_DIR = DASHBOARD_PERMISSIONS)) \<and>
    mode_of (transfer_and_backup ie w) UPLOAD_DIR =
      (if e_chmod (at_unlock ie) UPLOAD_DIR UPLOAD_PERMISSIONS then UPLOAD_PERMISSIONS
       else if e_chmod (at_lock ie) UPLOAD_DIR LOCKED_PERMISSIONS then LOCKED_PERMISSIONS
       else mode_of w UPLOAD_DIR) \<and>
    mode_of (transfer_and_backup ie w) DASHBOARD_DIR =
      (if e_chmod (at_unlock ie) DASHBOARD_DIR DASHBOARD_PERMISSIONS then DASHBOARD_PERMISSIONS
       else if e_chmod (at_lock ie) DASHBOARD_DIR LOCKED_PERMISSIONS then LOCKED_PERMISSIONS
       else mode_of w DASHBOARD_DIR)"
  proof (intro conjI)
    show "phases (transfer_and_backup ie w) = phases w @ scheduled_phases"
      using transfer_and_backup_result [of ie w] by simp
    then show "last (phases (transfer_and_backup ie w)) = ''Unlocking directories after backup/transfer''"
      by (simp add: last_scheduled_phases)
    show "\<exists>w4. transfer_and_backup ie w =
            (snd (unlock_directories (at_unlock ie) w4))\<lparr>force_transfer := 0\<rparr> \<and>
          mode_of w4 UPLOAD_DIR =
            (if e_chmod (at_lock ie) UPLOAD_DIR LOCKED_PERMISSIONS then LOCKED_PERMISSIONS
             else mode_of w UPLOAD_DIR) \<and>
          mode_of w4 DASHBOARD_DIR =
            (if e_chmod (at_lock ie) DASHBOARD_DIR LOCKED_PERMISSIONS then LOCKED_PERMISSIONS
             else mode_of w DASHBOARD_DIR) \<and>
          error_log (transfer_and_backup ie w) = error_log w4 @ unlock_failures (at_unlock ie) \<and>
          (fst (unlock_directories (at_unlock ie) w4) = SUCCESS \<longrightarrow>
             mode_of (transfer_and_backup ie w) UPLOAD_DIR = UPLOAD_PERMISSIONS \<and>
             mode_of (transfer_and_backup ie w) DASHBOARD_DIR = DASHBOARD_PERMISSIONS)"
      by (rule transfer_and_backup_call)
  qed (simp_all add: transfer_and_backup_modes unlocked_modes_cases locked_modes_cases)
  have m: "phases (manual_backup ie w) = phases w @ manual_phases \<and>
    last (phases (manual_backup ie w)) = ''Unlocking directories after backup/transfer'' \<and>
    (\<exists>w4. manual_backup ie w =
            (snd (unlock_directories (at_manual_unlock ie) w4))\<lparr>force_backup := 0\<rparr> \<and>
          mode_of w4 UPLOAD_DIR =
            (if e_chmod (at_manual_lock ie) UPLOAD_DIR LOCKED_PERMISSIONS then LOCKED_PERMISSIONS
             else mode_of w UPLOAD_DIR) \<and>
          mode_of w4 DASHBOARD_DIR =
            (if e_chmod (at_manual_lock ie) DASHBOARD_DIR LOCKED_PERMISSIONS then LOCKED_PERMISSIONS
             else mode_of w DASHBOARD_DIR) \<and>
          error_log (manual_backup ie w) = error_log w4 @ unlock_failures (at_manual_unlock ie) \<and>
          (fst (unlock_directories (at_manual_unlock ie) w4) = SUCCESS \<longrightarrow>
             mode_of (manual_backup ie w) UPLOAD_DIR = UPLOAD_PERMISSIONS \<and>
             mode_of (manual_backup ie w) DASHBOARD_DIR = DASHBOARD_PERMISSIONS)) \<and>
    mode_of (manual_backup ie w) UPLOAD_DIR =
      (if e_chmod (at_manual_unlock ie) UPLOAD_DIR UPLOAD_PERMISSIONS then UPLOAD_PERMISSIONS
       else if e_chmod (at_manual_lock ie) UPLOAD_DIR LOCKED_PERMISSIONS then LOCKED_PERMISSIONS
       else mode_of w UPLOAD_DIR) \<and>
    mode_of (manual_backup ie w) DASHBOARD_DIR =
      (if e_chmod (at_manual_unlock ie) DASHBOARD_DIR DASHBOARD_PERMISSIONS then DASHBOARD_PERMISSIONS
       else if e_chmod (at_manual_lock ie) DASHBOARD_DIR LOCKED_PERMISSIONS then LOCKED_PERMISSIONS
       else mode_of w DASHBOARD_DIR)"
  proof (intro conjI)
    show "phases (manual_backup ie w) = phases w @ manual_phases"
      using manual_backup_result [of ie w] by simp
    then show "last (phases (manual_backup ie w)) = ''Unlocking directories after backup/transfer''"
      by (simp add: last_manual_phases)
    show "\<exists>w4. manual_backup ie w =
            (snd (unlock_directories (at_manual_unlock ie) w4))\<lparr>force_backup := 0\<rparr> \<and>
          mode_of w4 UPLOAD_DIR =
            (if e_chmod (at_manual_lock ie) UPLOAD_DIR LOCKED_PERMISSIONS then LOCKED_PERMISSIONS
             else mode_of w UPLOAD_DIR) \<and>
          mode_of w4 DASHBOARD_DIR =
            (if e_chmod (at_manual_lock ie) DASHBOARD_DIR LOCKED_PERMISSIONS then LOCKED_PERMISSIONS
             else mode_of w DASHBOARD_DIR) \<and>
          error_log (manual_backup ie w) = error_log w4 @ unlock_failures (at_manual_unlock ie) \<and>
          (fst (unlock_directories (at_manual_unlock ie) w4) = SUCCESS \<longrightarrow>
             mode_of (manual_backup ie w) UPLOAD_DIR = UPLOAD_PERMISSIONS \<and>
             mode_of (manual_backup ie w) DASHBOARD_DIR = DASHBOARD_PERMISSIONS)"
      by (rule manual_backup_call)
  qed (simp_all add: manual_backup_modes unlocked_modes_cases locked_modes_cases)
  have i: "mode_of (fst (daemon_iteration ie w lc)) =
      mode_of (if force_backup w \<noteq> 0
               then manual_backup ie (if transfer_due (at_start ie) \<or> force_transfer w \<noteq> 0
                                      then transfer_and_backup ie w else w)
               else if transfer_due (at_start ie) \<or> force_transfer w \<noteq> 0
                    then transfer_and_backup ie w else w) \<and>
    (transfer_due (at_start ie) \<or> force_transfer w \<noteq> 0 \<or> force_backup w \<noteq> 0 \<longrightarrow>
       last (phases (fst (daemon_iteration ie w lc))) = ''Unlocking directories after backup/transfer'' \<and>
       (e_chmod (if force_backup w \<noteq> 0 then at_manual_unlock ie else at_unlock ie)
          UPLOAD_DIR UPLOAD_PERMISSIONS \<longrightarrow>
        mode_of (fst (daemon_iteration ie w lc)) UPLOAD_DIR = UPLOAD_PERMISSIONS) \<and>
       (e_chmod (if force_backup w \<noteq> 0 then at_manual_unlock ie else at_unlock ie)
          DASHBOARD_DIR DASHBOARD_PERMISSIONS \<longrightarrow>
        mode_of (fst (daemon_iteration ie w lc)) DASHBOARD_DIR = DASHBOARD_PERMISSIONS))"
  proof (intro conjI impI)
    show "mode_of (fst (daemon_iteration ie w lc)) =
      mode_of (if force_backup w \<noteq> 0
               then manual_backup ie (if transfer_due (at_start ie) \<or> force_transfer w \<noteq> 0
                                      then transfer_and_backup ie w else w)
               else if transfer_due (at_start ie) \<or> force_transfer w \<noteq> 0
                    then transfer_and_backup ie w else w)"
      by (rule daemon_iteration_modes)
  next
    assume a: "transfer_due (at_start ie) \<or> force_transfer w \<noteq> 0 \<or> force_backup w \<noteq> 0"
    show "last (phases (fst (daemon_iteration ie w lc))) = ''Unlocking directories after backup/transfer''"
      using a by (rule daemon_iteration_last_phase)
  next
    assume a: "transfer_due (at_start ie) \<or> force_transfer w \<noteq> 0 \<or> force_backup w \<noteq> 0"
      and c: "e_chmod (if force_backup w \<noteq> 0 then at_manual_unlock ie else at_unlock ie)
          UPLOAD_DIR UPLOAD_PERMISSIONS"
    from daemon_iteration_unlocked [OF a, of lc] c
    show "mode_of (fst (daemon_iteration ie w lc)) UPLOAD_DIR = UPLOAD_PERMISSIONS" by blast
  next
    assume a: "transfer_due (at_start ie) \<or> force_transfer w \<noteq> 0 \<or> force_backup w \<noteq> 0"
      and c: "e_chmod (if force_backup w \<noteq> 0 then at_manual_unlock ie else at_unlock ie)
          DASHBOARD_DIR DASHBOARD_PERMISSIONS"
    from daemon_iteration_unlocked [OF a, of lc] c
    show "mode_of (fst (daemon_iteration ie w lc)) DASHBOARD_DIR = DASHBOARD_PERMISSIONS" by blast
  qed
  from u t m i show ?thesis by blast
qed

text \<open>The theorem on \<open>unlock_directories\<close> in the calm environment and in one where no
  \<open>chmod\<close> succeeds; on a scheduled run in calm environments, which ends with both
  directories unlocked; on a manual backup in an environment where only the locking
  \<open>chmod\<close> succeeds; and on an iteration that makes both runs, of which the first
  unlocks the directories and the second cannot.\<close>

theorem unlock_after_every_run_witness:
  "fst (unlock_directories calm_env started_world) = SUCCESS \<and>
   fst (unlock_directories no_chmod_env started_world) = FAILURE \<and>
   error_log (snd (unlock_directories no_chmod_env started_world)) =
     [(''Failed to set permissions on %s: %s'', [S UPLOAD_DIR, Strerror]),
      (''Failed to unlock upload directory'', []),
      (''Failed to set permissions on %s: %s'', [S DASHBOARD_DIR, Strerror]),
      (''Failed to unlock dashboard directory'', [])] \<and>
   mode_of (transfer_and_backup (steady (calm_env_at 3600)) started_world) UPLOAD_DIR =
     UPLOAD_PERMISSIONS \<and>
   mode_of (manual_backup (steady (calm_env_at 3600)) started_world) DASHBOARD_DIR =
     DASHBOARD_PERMISSIONS \<and>
   last (phases (fst (daemon_iteration (steady (calm_env_at 3600)) started_world 0))) = ''Unlocking directories after backup/transfer'' \<and>
   mode_of (fst (daemon_iteration (steady (calm_env_at 3600)) started_world 0)) UPLOAD_DIR =
     UPLOAD_PERMISSIONS \<and>
   mode_of (fst (daemon_iteration (steady (calm_env_at 3600)) started_world 0)) DASHBOARD_DIR =
     DASHBOARD_PERMISSIONS \<and>
   mode_of (manual_backup (steady jammed_env) started_world) UPLOAD_DIR = LOCKED_PERMISSIONS \<and>
   mode_of (fst (daemon_iteration relocked_iteration (signal_handler started_world SIGUSR1) 0))
     UPLOAD_DIR = LOCKED_PERMISSIONS"
proof -
  let ?ie = "steady (calm_env_at 3600)" and ?w = started_world
  note t = unlock_after_every_run [of calm_env ?w ?ie 0]
  have cc: "e_chmod calm_env UPLOAD_DIR UPLOAD_PERMISSIONS"
    "e_chmod calm_env DASHBOARD_DIR DASHBOARD_PERMISSIONS"
    by (simp_all add: calm_env_def)
  from t [THEN conjunct1, THEN conjunct1] cc
  have 1: "fst (unlock_directories calm_env ?w) = SUCCESS" by simp
  note n = unlock_after_every_run [of no_chmod_env ?w ?ie 0, THEN conjunct1]
  have nc: "\<not> e_chmod no_chmod_env UPLOAD_DIR UPLOAD_PERMISSIONS"
    "\<not> e_chmod no_chmod_env DASHBOARD_DIR DASHBOARD_PERMISSIONS"
    by (simp_all add: no_chmod_env_def)
  from n [THEN conjunct1] nc
  have 2: "fst (unlock_directories no_chmod_env ?w) = FAILURE" by simp
  from n [THEN conjunct2, THEN conjunct2, THEN conjunct1] nc
  have 3: "error_log (snd (unlock_directories no_chmod_env ?w)) =
     [(''Failed to set permissions on %s: %s'', [S UPLOAD_DIR, Strerror]),
      (''Failed to unlock upload directory'', []),
      (''Failed to set permissions on %s: %s'', [S DASHBOARD_DIR, Strerror]),
      (''Failed to unlock dashboard directory'', [])]"
    by (simp add: unlock_failures_def started_world_def)
  have c: "e_chmod (at_unlock ?ie) UPLOAD_DIR UPLOAD_PERMISSIONS"
    "e_chmod (at_unlock ?ie) DASHBOARD_DIR DASHBOARD_PERMISSIONS"
    by (simp_all add: steady_def calm_env_at_def calm_env_def)
  from t [THEN conjunct2, THEN conjunct1, THEN conjunct2, THEN conjunct2, THEN conjunct1]
  obtain w4 where
    s: "fst (unlock_directories (at_unlock ?ie) w4) = SUCCESS \<longrightarrow>
          mode_of (transfer_and_backup ?ie ?w) UPLOAD_DIR = UPLOAD_PERMISSIONS \<and>
          mode_of (transfer_and_backup ?ie ?w) DASHBOARD_DIR = DASHBOARD_PERMISSIONS"
    by blast
  from unlock_after_every_run [of "at_unlock ?ie" w4 ?ie 0, THEN conjunct1, THEN conjunct1] c
  have "fst (unlock_directories (at_unlock ?ie) w4) = SUCCESS" by simp
  with s have 4: "mode_of (transfer_and_backup ?ie ?w) UPLOAD_DIR = UPLOAD_PERMISSIONS"
    by blast
  have c': "e_chmod (at_manual_unlock ?ie) UPLOAD_DIR UPLOAD_PERMISSIONS"
    "e_chmod (at_manual_unlock ?ie) DASHBOARD_DIR DASHBOARD_PERMISSIONS"
    by (simp_all add: steady_def calm_env_at_def calm_env_def)
  from t [THEN conjunct2, THEN conjunct2, THEN conjunct1, THEN conjunct2, THEN conjunct2,
          THEN conjunct1]
  obtain w4' where
    s': "fst (unlock_directories (at_manual_unlock ?ie) w4') = SUCCESS \<longrightarrow>
          mode_of (manual_backup ?ie ?w) UPLOAD_DIR = UPLOAD_PERMISSIONS \<and>
          mode_of (manual_backup ?ie ?w) DASHBOARD_DIR = DASHBOARD_PERMISSIONS"
    by blast
  from unlock_after_every_run [of "at_manual_unlock ?ie" w4' ?ie 0, THEN conjunct1,
                               THEN conjunct1] c'
  have "fst (unlock_directories (at_manual_unlock ?ie) w4') = SUCCESS" by simp
  with s' have 10: "mode_of (manual_backup ?ie ?w) DASHBOARD_DIR = DASHBOARD_PERMISSIONS"
    by blast
  have f: "force_backup ?w = 0" by (simp add: started_world_def)
  from t [THEN conjunct2, THEN conjunct2, THEN conjunct2, THEN conjunct2] due_at_one(3) c f
  have 5: "last (phases (fst (daemon_iteration ?ie ?w 0))) = ''Unlocking directories after backup/transfer''"
    and 6: "mode_of (fst (daemon_iteration ?ie ?w 0)) UPLOAD_DIR = UPLOAD_PERMISSIONS"
    and 7: "mode_of (fst (daemon_iteration ?ie ?w 0)) DASHBOARD_DIR = DASHBOARD_PERMISSIONS"
    by simp_all
  have j: "\<not> e_chmod (at_manual_unlock (steady jammed_env)) UPLOAD_DIR UPLOAD_PERMISSIONS"
    "e_chmod (at_manual_lock (steady jammed_env)) UPLOAD_DIR LOCKED_PERMISSIONS"
    by (simp_all add: steady_def jammed_env_def LOCKED_PERMISSIONS_def UPLOAD_PERMISSIONS_def)
  from unlock_after_every_run [of calm_env ?w "steady jammed_env" 0, THEN conjunct2,
         THEN conjunct2, THEN conjunct1, THEN conjunct2, THEN conjunct2, THEN conjunct2,
         THEN conjunct1] j
  have 8: "mode_of (manual_backup (steady jammed_env) ?w) UPLOAD_DIR = LOCKED_PERMISSIONS"
    by simp
  let ?r = relocked_iteration and ?b = "signal_handler started_world SIGUSR1"
  have fb: "force_backup ?b \<noteq> 0" by (simp add: started_world_def)
  from unlock_after_every_run [of calm_env ?b ?r 0, THEN conjunct2, THEN conjunct2,
         THEN conjunct2, THEN conjunct1] fb due_at_one(5)
  have m: "mode_of (fst (daemon_iteration ?r ?b 0)) =
           mode_of (manual_backup ?r (transfer_and_backup ?r ?b))"
    by simp
  have k: "\<not> e_chmod (at_manual_unlock ?r) UPLOAD_DIR UPLOAD_PERMISSIONS"
    "e_chmod (at_manual_lock ?r) UPLOAD_DIR LOCKED_PERMISSIONS"
    by (simp_all add: relocked_iteration_def steady_def no_chmod_env_def calm_env_at_def
        calm_env_def)
  from unlock_after_every_run [of calm_env "transfer_and_backup ?r ?b" ?r 0, THEN conjunct2,
         THEN conjunct2, THEN conjunct1, THEN conjunct2, THEN conjunct2, THEN conjunct2,
         THEN conjunct1] k
  have "mode_of (manual_backup ?r (transfer_and_backup ?r ?b)) UPLOAD_DIR = LOCKED_PERMISSIONS"
    by simp
  with m have 9: "mode_of (fst (daemon_iteration ?r ?b 0)) UPLOAD_DIR = LOCKED_PERMISSIONS"
    by simp
  from 1 2 3 4 10 5 6 7 8 9 show ?thesis by blast
qed

text \<open>Claim C1 as the specification words it fails: in the iteration at the scheduled
  time where \<open>chmod\<close> succeeds for the locking and fails for the unlocking,
  \<open>unlock_directories\<close> is executed last and both directories end the run without any
  permission.\<close>

theorem unlock_after_every_run_counterexample:
  "transfer_due (at_start stuck_iteration) \<and>
   last (phases (fst (daemon_iteration stuck_iteration started_world 0))) = ''Unlocking directories after backup/transfer'' \<and>
   mode_of (fst (daemon_iteration stuck_iteration started_world 0)) UPLOAD_DIR =
     LOCKED_PERMISSIONS \<and>
   mode_of (fst (daemon_iteration stuck_iteration started_world 0)) DASHBOARD_DIR =
     LOCKED_PERMISSIONS \<and>
   LOCKED_PERMISSIONS \<noteq> UPLOAD_PERMISSIONS \<and>
   LOCKED_PERMISSIONS \<noteq> DASHBOARD_PERMISSIONS"
proof -
  let ?ie = stuck_iteration
  have a: "transfer_due (at_start ?ie) \<or> force_transfer started_world \<noteq> 0 \<or>
           force_backup started_world \<noteq> 0"
    using due_at_one(4) by blast
  have f: "force_backup started_world = 0" by (simp add: started_world_def)
  have m: "mode_of (fst (daemon_iteration ?ie started_world 0)) =
           unlocked_modes (at_unlock ?ie) (locked_modes (at_lock ?ie) (mode_of started_world))"
    using due_at_one(4) f
    by (simp add: daemon_iteration_modes [of ?ie started_world 0] transfer_and_backup_modes)
  have c: "\<not> e_chmod (at_unlock ?ie) UPLOAD_DIR UPLOAD_PERMISSIONS"
    "\<not> e_chmod (at_unlock ?ie) DASHBOARD_DIR DASHBOARD_PERMISSIONS"
    "e_chmod (at_lock ?ie) UPLOAD_DIR LOCKED_PERMISSIONS"
    "e_chmod (at_lock ?ie) DASHBOARD_DIR LOCKED_PERMISSIONS"
    by (simp_all add: stuck_iteration_def steady_def no_chmod_env_def calm_env_at_def
        calm_env_def)
  from c have u: "unlocked_modes (at_unlock ?ie)
                    (locked_modes (at_lock ?ie) (mode_of started_world)) UPLOAD_DIR =
                  LOCKED_PERMISSIONS"
    and d: "unlocked_modes (at_unlock ?ie)
              (locked_modes (at_lock ?ie) (mode_of started_world)) DASHBOARD_DIR =
            LOCKED_PERMISSIONS"
    by (simp_all add: unlocked_modes_cases locked_modes_cases)
  have l: "last (phases (fst (daemon_iteration ?ie started_world 0))) = ''Unlocking directories after backup/transfer''"
    using a by (rule daemon_iteration_last_phase)
  have n: "LOCKED_PERMISSIONS \<noteq> UPLOAD_PERMISSIONS" "LOCKED_PERMISSIONS \<noteq> DASHBOARD_PERMISSIONS"
    by (simp_all add: LOCKED_PERMISSIONS_def UPLOAD_PERMISSIONS_def DASHBOARD_PERMISSIONS_def)
  from due_at_one(4) l m u d n show ?thesis by simp
qed



subsection \<open>Leaving the loop\<close>

lemma signals_daemon_exit:
  "daemon_exit (foldl signal_handler w sigs) =
     (if SIGTERM \<in> set sigs \<or> SIGINT \<in> set sigs then 1 else daemon_exit w)"
proof (induction sigs arbitrary: w)
  case Nil
  show ?case by simp
next
  case (Cons sig sigs)
  show ?case by (cases sig) (simp_all add: Cons.IH)
qed

text \<open>A daemon that is running when an iteration starts and receives \<open>SIGTERM\<close> during
  its sleep finishes that iteration and leaves the loop.\<close>

lemma daemon_main_loop_leaves:
  assumes "daemon_exit w = 0" and "SIGTERM \<in> set (e_signals (at_sleep ie))"
  shows "\<exists>w'. daemon_main_loop (ie # ies) w = Some w'"
proof -
  let ?w0 = "log_operation w ''Entering main daemon loop'' []"
  obtain w1 lc where i: "daemon_iteration ie ?w0 0 = (w1, lc)"
    by (cases "daemon_iteration ie ?w0 0")
  let ?w2 = "foldl signal_handler w1 (e_signals (at_sleep ie))"
  from assms(2) have x: "daemon_exit ?w2 \<noteq> 0" by (simp add: signals_daemon_exit)
  from assms(1) i have "daemon_main_loop (ie # ies) w = daemon_loop ies ?w2 lc"
    by (simp add: daemon_main_loop_def daemon_loop.simps [of "ie # ies"])
  also from x have "\<dots> = Some (log_operation ?w2 ''Exiting main daemon loop'' [])"
    by (simp add: daemon_loop.simps [of ies])
  finally show ?thesis by blast
qed

section \<open>Which entries count as report files\<close>

lemma is_report_entry_substring:
  "is_report_entry entry \<longleftrightarrow>
     \<not> d_is_dir entry \<and> (\<exists>a b. d_name entry = a @ ''.xml'' @ b)"
  using strstr_Some_iff_substring [of "d_name entry" "''.xml''"]
  by (auto simp: is_report_entry_def REPORT_EXTENSION_def)

lemma strcasecmp_eq_length: "strcasecmp_eq a b \<Longrightarrow> length a = length b"
  unfolding strcasecmp_eq_def by (rule map_eq_imp_length_eq)

lemma departments_differ:
  "strcasecmp_eq d DEPT_WAREHOUSE \<Longrightarrow> \<not> strcasecmp_eq d DEPT_MANUFACTURING"
  "strcasecmp_eq d DEPT_WAREHOUSE \<Longrightarrow> \<not> strcasecmp_eq d DEPT_SALES"
  "strcasecmp_eq d DEPT_WAREHOUSE \<Longrightarrow> \<not> strcasecmp_eq d DEPT_DISTRIBUTION"
  "strcasecmp_eq d DEPT_MANUFACTURING \<Longrightarrow> \<not> strcasecmp_eq d DEPT_SALES"
  "strcasecmp_eq d DEPT_MANUFACTURING \<Longrightarrow> \<not> strcasecmp_eq d DEPT_DISTRIBUTION"
  "strcasecmp_eq d DEPT_SALES \<Longrightarrow> \<not> strcasecmp_eq d DEPT_DISTRIBUTION"
  by (auto dest!: strcasecmp_eq_length
      simp: DEPT_WAREHOUSE_def DEPT_MANUFACTURING_def DEPT_SALES_def DEPT_DISTRIBUTION_def)

lemma mark_found_departments:
  "mark_found d department_reports [f0, f1, f2, f3] =
     [f0 \<or> strcasecmp_eq d DEPT_WAREHOUSE, f1 \<or> strcasecmp_eq d DEPT_MANUFACTURING,
      f2 \<or> strcasecmp_eq d DEPT_SALES, f3 \<or> strcasecmp_eq d DEPT_DISTRIBUTION]"
  using departments_differ [of d] by (auto simp: department_reports_def)

lemma check_loop_found:
  "check_loop entries [f0, f1, f2, f3] =
     [f0 \<or> department_present entries DEPT_WAREHOUSE,
      f1 \<or> department_present entries DEPT_MANUFACTURING,
      f2 \<or> department_present entries DEPT_SALES,
      f3 \<or> department_present entries DEPT_DISTRIBUTION]"
proof (induction entries arbitrary: f0 f1 f2 f3)
  case Nil
  show ?case by (simp add: department_present_def)
next
  case (Cons entry rest)
  show ?case
  proof (cases "is_report_entry entry")
    case False
    then have "check_loop (entry # rest) [f0, f1, f2, f3] = check_loop rest [f0, f1, f2, f3]"
      by (auto simp: is_report_entry_def)
    with False Cons.IH [of f0 f1 f2 f3] show ?thesis
      by (simp add: department_present_def del: check_loop.simps)
  next
    case True
    show ?thesis
    proof (cases "extract_department_from_filename (d_name entry) MAX_USER_LENGTH")
      case (Department dept)
      with True have "check_loop (entry # rest) [f0, f1, f2, f3] =
          check_loop rest (mark_found dept department_reports [f0, f1, f2, f3])"
        by (auto simp: is_report_entry_def)
      with True Department show ?thesis
        unfolding mark_found_departments Cons.IH
        by (auto simp: department_present_def simp del: check_loop.simps)
    next
      case Null
      with True have "check_loop (entry # rest) [f0, f1, f2, f3] = check_loop rest [f0, f1, f2, f3]"
        by (auto simp: is_report_entry_def)
      with True Null Cons.IH [of f0 f1 f2 f3] show ?thesis
        by (simp add: department_present_def del: check_loop.simps)
    next
      case Overrun
      with True have "check_loop (entry # rest) [f0, f1, f2, f3] = check_loop rest [f0, f1, f2, f3]"
        by (auto simp: is_report_entry_def)
      with True Overrun Cons.IH [of f0 f1 f2 f3] show ?thesis
        by (simp add: department_present_def del: check_loop.simps)
    qed
  qed
qed

lemma log_missing_count:
  "length rs = length fs \<Longrightarrow>
     fst (log_missing rs fs c w) = c + int (length (filter (\<lambda>f. \<not> f) fs))"
  by (induction rs fs c w rule: log_missing.induct) auto

lemma check_missing_reports_count:
  assumes "e_opendir e DASHBOARD_DIR = Some entries"
  shows "fst (check_missing_reports e w) =
           int (length (filter (\<lambda>r. \<not> department_present entries r) department_reports))"
proof -
  have "fst (log_missing department_reports
               (check_loop entries [False, False, False, False]) 0
               (log_operation w ''Checking for missing department reports'' [])) =
        0 + int (length (filter (\<lambda>f. \<not> f) (check_loop entries [False, False, False, False])))"
    by (rule log_missing_count) (simp add: check_loop_found department_reports_def)
  with assms show ?thesis
    by (simp add: check_missing_reports_def Let_def case_prod_beta check_loop_found
        department_reports_def)
qed

text \<open>
  Claim C10. \<open>transfer_reports\<close> and \<open>check_missing_reports\<close> take an entry for a
  report file whenever it is not a directory and \<open>.xml\<close> occurs anywhere in its name.
  \<open>transfer_reports\<close> announces a move for exactly these entries of the upload
  directory, and \<open>check_missing_reports\<close> counts as missing exactly the departments
  for which no such entry of the dashboard directory yields their label. A file named
  \<open>report_Sales.xml.bak\<close> is such an entry, and makes the department Sales present.
\<close>

theorem report_extension_anywhere:
  "(is_report_entry entry \<longleftrightarrow>
      \<not> d_is_dir entry \<and> (\<exists>a b. d_name entry = a @ ''.xml'' @ b)) \<and>
   (e_opendir e UPLOAD_DIR = Some entries \<longrightarrow>
      operation_log (snd (transfer_reports e w)) =
        operation_log w @
        (''Starting report transfer from upload to dashboard'', []) #
        map moving_line (filter is_report_entry entries)) \<and>
   (e_opendir e DASHBOARD_DIR = Some entries \<longrightarrow>
      fst (check_missing_reports e w) =
        int (length (filter (\<lambda>r. \<not> department_present entries r) department_reports))) \<and>
   is_report_entry (regular_file ''report_Sales.xml.bak'') \<and>
   department_present [regular_file ''report_Sales.xml.bak''] DEPT_SALES"
proof (intro conjI impI)
  show "is_report_entry entry \<longleftrightarrow>
      \<not> d_is_dir entry \<and> (\<exists>a b. d_name entry = a @ ''.xml'' @ b)"
    by (rule is_report_entry_substring)
next
  assume od: "e_opendir e UPLOAD_DIR = Some entries"
  let ?w1 = "log_operation w ''Starting report transfer from upload to dashboard'' []"
  from transfer_loop_result [of e entries SUCCESS ?w1 w] obtain rc w' where
    "transfer_loop e entries SUCCESS ?w1 = (rc, w')"
    "operation_log w' = operation_log ?w1 @ map moving_line (filter is_report_entry entries)"
    by blast
  with od show "operation_log (snd (transfer_reports e w)) =
        operation_log w @
        (''Starting report transfer from upload to dashboard'', []) #
        map moving_line (filter is_report_entry entries)"
    by (simp add: transfer_reports_def)
next
  assume "e_opendir e DASHBOARD_DIR = Some entries"
  then show "fst (check_missing_reports e w) =
        int (length (filter (\<lambda>r. \<not> department_present entries r) department_reports))"
    by (rule check_missing_reports_count)
next
  show "is_report_entry (regular_file ''report_Sales.xml.bak'')"
    by (simp add: is_report_entry_def regular_file_def REPORT_EXTENSION_def)
next
  show "department_present [regular_file ''report_Sales.xml.bak''] DEPT_SALES"
    by (simp add: department_present_def is_report_entry_def regular_file_def extract_defs
        DEPT_SALES_def strcasecmp_eq_def)
qed

text \<open>The theorem on directories that hold the single file \<open>report_Sales.xml.bak\<close>:
  it is moved, and three departments are missing, not four.\<close>

theorem report_extension_anywhere_witness:
  "operation_log (snd (transfer_reports
      (unreadable_env [regular_file ''report_Sales.xml.bak''] []) started_world)) =
     [(''Starting report transfer from upload to dashboard'', []),
      (''Moving file: %s to %s'', [S ''report_Sales.xml.bak'', S DASHBOARD_DIR])] \<and>
   fst (check_missing_reports
      (unreadable_env [regular_file ''report_Sales.xml.bak''] []) started_world) = 3"
proof -
  let ?l = "[regular_file ''report_Sales.xml.bak'']"
  let ?e = "unreadable_env ?l []"
  note t = report_extension_anywhere [of "regular_file ''report_Sales.xml.bak''" ?e ?l started_world]
  have sub: "\<not> d_is_dir (regular_file ''report_Sales.xml.bak'') \<and>
     (\<exists>a b. d_name (regular_file ''report_Sales.xml.bak'') = a @ ''.xml'' @ b)"
  proof
    show "\<not> d_is_dir (regular_file ''report_Sales.xml.bak'')" by (simp add: regular_file_def)
    have "d_name (regular_file ''report_Sales.xml.bak'') = ''report_Sales'' @ ''.xml'' @ ''.bak''"
      by (simp add: regular_file_def)
    then show "\<exists>a b. d_name (regular_file ''report_Sales.xml.bak'') = a @ ''.xml'' @ b"
      by blast
  qed
  with t have sel: "is_report_entry (regular_file ''report_Sales.xml.bak'')" by blast
  have od: "e_opendir ?e UPLOAD_DIR = Some ?l" "e_opendir ?e DASHBOARD_DIR = Some ?l"
    by (simp_all add: unreadable_env_def calm_env_def)
  from t od(1) have "operation_log (snd (transfer_reports ?e started_world)) =
        operation_log started_world @
        (''Starting report transfer from upload to dashboard'', []) #
        map moving_line (filter is_report_entry ?l)"
    by blast
  with sel have a: "operation_log (snd (transfer_reports ?e started_world)) =
     [(''Starting report transfer from upload to dashboard'', []),
      (''Moving file: %s to %s'', [S ''report_Sales.xml.bak'', S DASHBOARD_DIR])]"
    by (simp add: started_world_def moving_line_def regular_file_def)
  have present: "department_present ?l DEPT_SALES"
    "\<not> department_present ?l DEPT_WAREHOUSE"
    "\<not> department_present ?l DEPT_MANUFACTURING"
    "\<not> department_present ?l DEPT_DISTRIBUTION"
    by (simp_all add: department_present_def is_report_entry_def regular_file_def extract_defs
        DEPT_SALES_def DEPT_WAREHOUSE_def DEPT_MANUFACTURING_def DEPT_DISTRIBUTION_def
        strcasecmp_eq_def)
  from t od(2) have "fst (check_missing_reports ?e started_world) =
        int (length (filter (\<lambda>r. \<not> department_present ?l r) department_reports))"
    by blast
  with present have b: "fst (check_missing_reports ?e started_world) = 3"
    by (simp add: department_reports_def)
  from a b show ?thesis by blast
qed


end
